theory Spec2Isabelle
  imports Main "HOL-Library.Word"
begin

section \<open>PaymentSubscription: the data model\<close>

text \<open>
  A shallow embedding of \<^verbatim>\<open>contracts/src/PaymentSubscription.sol\<close>.

  \<^item> \<^verbatim>\<open>address\<close> and \<^verbatim>\<open>bytes32\<close> values are natural numbers; \<^verbatim>\<open>address(0)\<close> and the
    all-zero \<^verbatim>\<open>bytes32\<close> are \<open>0\<close>.
  \<^item> \<^verbatim>\<open>uint256\<close> values are natural numbers. Solidity 0.8 arithmetic is checked: an
    addition whose result does not fit 256 bits reverts with a panic, and so does a
    subtraction below zero. Both are written out as \<open>Inl Panic\<close>.
  \<^item> \<^verbatim>\<open>uint32\<close> arguments (\<^verbatim>\<open>interval\<close>, \<^verbatim>\<open>trialDays\<close>) are \<open>32 word\<close>.
  \<^item> A storage \<^verbatim>\<open>mapping\<close> is a total function whose default is the all-zero value.
  \<^item> A transaction that reverts returns \<open>Inl\<close>: storage and ledger stay as they were
    before the call.
  \<^item> Emitted events are appended to the \<open>events\<close> log.
\<close>

type_synonym address = nat
type_synonym bytes32 = nat
type_synonym uint256 = nat
type_synonym uint32 = "32 word"

definition MAX_BATCH_SIZE :: nat where
  "MAX_BATCH_SIZE = 100"

definition UINT256_LIMIT :: nat where
  "UINT256_LIMIT = 2 ^ 256"

definition ONE_DAY :: nat where
  "ONE_DAY = 86400"

datatype SubscriptionStatus = Active | Paused | Canceled | Expired

datatype ChargeFailReason =
    Success | NotDue | InsufficientBalance | NotApproved
  | ReasonPaused | ReasonCanceled | PlanInactive

fun status_uint8 :: "SubscriptionStatus \<Rightarrow> nat" where
  "status_uint8 Active = 0"
| "status_uint8 Paused = 1"
| "status_uint8 Canceled = 2"
| "status_uint8 Expired = 3"

fun reason_uint8 :: "ChargeFailReason \<Rightarrow> nat" where
  "reason_uint8 Success = 0"
| "reason_uint8 NotDue = 1"
| "reason_uint8 InsufficientBalance = 2"
| "reason_uint8 NotApproved = 3"
| "reason_uint8 ReasonPaused = 4"
| "reason_uint8 ReasonCanceled = 5"
| "reason_uint8 PlanInactive = 6"

record Plan =
  plan_id :: bytes32
  plan_amount :: uint256
  plan_token :: address
  plan_interval :: uint32
  plan_merchant :: address
  plan_active :: bool
  plan_subscriberCount :: uint256
  plan_createdAt :: uint256

record Subscription =
  sub_id :: bytes32
  sub_planId :: bytes32
  subscriber :: address
  status :: SubscriptionStatus
  startTime :: uint256
  currentPeriodStart :: uint256
  currentPeriodEnd :: uint256
  cancelAtPeriodEnd :: bool
  pausedAt :: uint256
  paymentCount :: uint256

record Payment =
  pay_orderId :: bytes32
  payer :: address
  pay_merchant :: address
  pay_amount :: uint256
  pay_token :: address
  pay_timestamp :: uint256
  paid :: bool

record PaymentRecord =
  rec_amount :: uint256
  rec_timestamp :: uint256
  periodStart :: uint256
  periodEnd :: uint256

datatype event =
    TokenAdded address
  | TokenRemoved address
  | PlanCreated bytes32 address uint256 address uint32
  | PlanUpdated bytes32 bool
  | SubscriptionCreated bytes32 bytes32 address uint256
  | SubscriptionStatusChanged bytes32 nat nat
  | SubscriptionCanceled bytes32 uint256 bool
  | PaymentExecuted bytes32 uint256 uint256 uint256 uint256
  | PaymentFailed bytes32 nat
  | Refunded bytes32 address uint256
  | PaymentReceived bytes32 address address uint256 address
  | OwnershipTransferred address address

datatype error = Revert string | Panic | ExternalCallFailed string

text \<open>
  What a high-level call to another contract can come to: the callee returned a value
  of the expected type; the callee reverted; or there is nothing to decode, because
  the target has no code or its return data are not a value of the expected type. In
  the last case the caller itself reverts, also when the call stands in a
  \<^verbatim>\<open>try\<close> statement, whose \<^verbatim>\<open>catch\<close> handles a revert of the callee only.
\<close>

datatype 'a reply = Returned 'a | Reverted | Malformed

definition zeroPlan :: Plan where
  "zeroPlan = \<lparr>plan_id = 0, plan_amount = 0, plan_token = 0, plan_interval = 0,
     plan_merchant = 0, plan_active = False, plan_subscriberCount = 0, plan_createdAt = 0\<rparr>"

definition zeroSubscription :: Subscription where
  "zeroSubscription = \<lparr>sub_id = 0, sub_planId = 0, subscriber = 0, status = Active,
     startTime = 0, currentPeriodStart = 0, currentPeriodEnd = 0, cancelAtPeriodEnd = False,
     pausedAt = 0, paymentCount = 0\<rparr>"

definition zeroPayment :: Payment where
  "zeroPayment = \<lparr>pay_orderId = 0, payer = 0, pay_merchant = 0, pay_amount = 0,
     pay_token = 0, pay_timestamp = 0, paid = False\<rparr>"

text \<open>
  The contract's storage. \<open>guard_status\<close> is \<^verbatim>\<open>ReentrancyGuard._status\<close> (1 = not
  entered, 2 = entered), \<open>owner\<close> is \<^verbatim>\<open>Ownable._owner\<close>. \<^verbatim>\<open>Pausable.sol\<close> is not part
  of the sources at hand: its flag is the field \<open>contract_paused\<close>, and
  \<^verbatim>\<open>whenNotPaused\<close> reverts exactly when the flag is set.
\<close>

record storage =
  plans :: "bytes32 \<Rightarrow> Plan"
  planIds :: "bytes32 list"
  subscriptions :: "bytes32 \<Rightarrow> Subscription"
  subscriptionIds :: "bytes32 list"
  userSubscriptions :: "address \<Rightarrow> bytes32 list"
  planSubscriptions :: "bytes32 \<Rightarrow> bytes32 list"
  subscriptionPayments :: "bytes32 \<Rightarrow> PaymentRecord list"
  payments :: "bytes32 \<Rightarrow> Payment"
  supportedTokens :: "address list"
  tokenSupported :: "address \<Rightarrow> bool"
  subscriptionNonce :: uint256
  owner :: address
  guard_status :: nat
  contract_paused :: bool
  events :: "event list"

definition NOT_ENTERED :: nat where
  "NOT_ENTERED = 1"

definition ENTERED :: nat where
  "ENTERED = 2"

text \<open>
  The call context: \<^verbatim>\<open>msg.sender\<close> and \<^verbatim>\<open>block.timestamp\<close>. \<^verbatim>\<open>msg.value\<close> is an
  explicit argument of the payable functions only.
\<close>

record ctx =
  msg_sender :: address
  block_timestamp :: uint256

text \<open>
  The world outside the contract, for an arbitrary ledger state \<open>'l\<close>. The token
  interface \<^verbatim>\<open>IBEP20\<close> is not part of the sources at hand, so the behaviour of a
  token is a parameter. \<open>balanceOf\<close> and \<open>allowance\<close> are calls that read the ledger
  (token first) and, like every call, may fail; \<open>transferFrom l token from to amount\<close>
  and \<open>transfer l token to amount\<close>, called by the contract, return a boolean and the
  new ledger, or fail; \<open>call_value l to amount\<close> is a native-currency
  \<^verbatim>\<open>to.call{value: amount}("")\<close>, \<open>None\<close> when it fails.
  \<open>this\<close> is \<^verbatim>\<open>address(this)\<close> and \<open>keccak\<close> is
  \<^verbatim>\<open>keccak256(abi.encodePacked(planId, msg.sender, block.timestamp, nonce))\<close>.
  A callee does not call back into the contract.
\<close>

record 'l env =
  this :: address
  keccak :: "bytes32 \<Rightarrow> address \<Rightarrow> uint256 \<Rightarrow> uint256 \<Rightarrow> bytes32"
  balanceOf :: "'l \<Rightarrow> address \<Rightarrow> address \<Rightarrow> uint256 reply"
  allowance :: "'l \<Rightarrow> address \<Rightarrow> address \<Rightarrow> address \<Rightarrow> uint256 reply"
  transferFrom :: "'l \<Rightarrow> address \<Rightarrow> address \<Rightarrow> address \<Rightarrow> uint256 \<Rightarrow> (bool \<times> 'l) reply"
  transfer :: "'l \<Rightarrow> address \<Rightarrow> address \<Rightarrow> uint256 \<Rightarrow> (bool \<times> 'l) reply"
  call_value :: "'l \<Rightarrow> address \<Rightarrow> uint256 \<Rightarrow> 'l option"

section \<open>Modifiers and helpers\<close>

text \<open>\<^verbatim>\<open>planExists\<close> and \<^verbatim>\<open>subscriptionExists\<close>: a non-zero merchant, a non-zero subscriber.\<close>

definition planExists :: "storage \<Rightarrow> bytes32 \<Rightarrow> bool" where
  "planExists s planId = (plan_merchant (plans s planId) \<noteq> 0)"

definition subscriptionExists :: "storage \<Rightarrow> bytes32 \<Rightarrow> bool" where
  "subscriptionExists s subscriptionId = (subscriber (subscriptions s subscriptionId) \<noteq> 0)"

text \<open>
  \<^verbatim>\<open>nonReentrant\<close>: \<^verbatim>\<open>_nonReentrantBefore\<close>, the body, \<^verbatim>\<open>_nonReentrantAfter\<close>. A revert of
  the body reverts the whole call.
\<close>

definition nonReentrant ::
  "(storage \<Rightarrow> 'l \<Rightarrow> error + ('a \<times> storage \<times> 'l)) \<Rightarrow> storage \<Rightarrow> 'l \<Rightarrow> error + ('a \<times> storage \<times> 'l)" where
  "nonReentrant body s l =
     (if guard_status s = ENTERED then Inl (Revert ''ReentrancyGuard: reentrant call'')
      else case body (s\<lparr>guard_status := ENTERED\<rparr>) l of
             Inl e \<Rightarrow> Inl e
           | Inr (r, s', l') \<Rightarrow> Inr (r, s'\<lparr>guard_status := NOT_ENTERED\<rparr>, l'))"

text \<open>
  Modelled from the spec: \<^verbatim>\<open>SafeERC20.sol\<close> is not part of the sources at hand.
  \<^verbatim>\<open>safeTransferFrom\<close> and \<^verbatim>\<open>safeTransfer\<close> go through when the call to the token
  returns true; on every other reply (false, a revert, nothing that can be decoded)
  they revert, as the spec has it for a transfer that the ledger rejects.
\<close>

definition safeTransferFrom ::
  "'l env \<Rightarrow> address \<Rightarrow> address \<Rightarrow> address \<Rightarrow> uint256 \<Rightarrow> 'l \<Rightarrow> error + 'l" where
  "safeTransferFrom E token from to amount l =
     (case transferFrom E l token from to amount of
        Returned (ok, l') \<Rightarrow>
          if ok then Inr l' else Inl (Revert ''SafeERC20: transferFrom failed'')
      | Reverted \<Rightarrow> Inl (ExternalCallFailed ''transferFrom'')
      | Malformed \<Rightarrow> Inl (ExternalCallFailed ''transferFrom''))"

definition safeTransfer ::
  "'l env \<Rightarrow> address \<Rightarrow> address \<Rightarrow> uint256 \<Rightarrow> 'l \<Rightarrow> error + 'l" where
  "safeTransfer E token to amount l =
     (case transfer E l token to amount of
        Returned (ok, l') \<Rightarrow>
          if ok then Inr l' else Inl (Revert ''SafeERC20: transfer failed'')
      | Reverted \<Rightarrow> Inl (ExternalCallFailed ''transfer'')
      | Malformed \<Rightarrow> Inl (ExternalCallFailed ''transfer''))"

section \<open>The constructor and the administrator's functions\<close>

definition constructor :: "address \<Rightarrow> storage" where
  "constructor deployer =
     \<lparr>plans = (\<lambda>_. zeroPlan), planIds = [],
      subscriptions = (\<lambda>_. zeroSubscription), subscriptionIds = [],
      userSubscriptions = (\<lambda>_. []), planSubscriptions = (\<lambda>_. []),
      subscriptionPayments = (\<lambda>_. []), payments = (\<lambda>_. zeroPayment),
      supportedTokens = [0], tokenSupported = (\<lambda>_. False)(0 := True),
      subscriptionNonce = 0, owner = deployer, guard_status = NOT_ENTERED,
      contract_paused = False, events = [OwnershipTransferred 0 deployer]\<rparr>"

definition addSupportedToken :: "ctx \<Rightarrow> address \<Rightarrow> storage \<Rightarrow> error + storage" where
  "addSupportedToken c token s =
     (if owner s \<noteq> msg_sender c then Inl (Revert ''Ownable: caller is not the owner'')
      else if tokenSupported s token then Inl (Revert ''Token already supported'')
      else Inr (s\<lparr>tokenSupported := (tokenSupported s)(token := True),
                  supportedTokens := supportedTokens s @ [token],
                  events := events s @ [TokenAdded token]\<rparr>))"

text \<open>
  The removal loop of \<^verbatim>\<open>removeSupportedToken\<close>: the first entry equal to the token is
  overwritten with the last entry, and the last entry is popped.
\<close>

function removeFromArray :: "nat \<Rightarrow> address list \<Rightarrow> address \<Rightarrow> address list" where
  "removeFromArray i xs token =
     (if i < length xs then
        (if xs ! i = token then butlast (xs[i := xs ! (length xs - 1)])
         else removeFromArray (i + 1) xs token)
      else xs)"
  by pat_completeness auto
termination
  by (relation "measure (\<lambda>(i, xs, token). length xs - i)") auto

declare removeFromArray.simps [simp del]

definition removeSupportedToken :: "ctx \<Rightarrow> address \<Rightarrow> storage \<Rightarrow> error + storage" where
  "removeSupportedToken c token s =
     (if owner s \<noteq> msg_sender c then Inl (Revert ''Ownable: caller is not the owner'')
      else if token = 0 then Inl (Revert ''Cannot remove native token'')
      else if \<not> tokenSupported s token then Inl (Revert ''Token not supported'')
      else Inr (s\<lparr>tokenSupported := (tokenSupported s)(token := False),
                  supportedTokens := removeFromArray 0 (supportedTokens s) token,
                  events := events s @ [TokenRemoved token]\<rparr>))"

text \<open>
  \<^verbatim>\<open>pause\<close> and \<^verbatim>\<open>unpause\<close>: the owner sets and clears the flag of the absent
  \<^verbatim>\<open>Pausable\<close>.
\<close>

definition setPaused :: "ctx \<Rightarrow> bool \<Rightarrow> storage \<Rightarrow> error + storage" where
  "setPaused c b s =
     (if owner s \<noteq> msg_sender c then Inl (Revert ''Ownable: caller is not the owner'')
      else Inr (s\<lparr>contract_paused := b\<rparr>))"

text \<open>\<^verbatim>\<open>Ownable.transferOwnership\<close> and \<^verbatim>\<open>Ownable.renounceOwnership\<close>.\<close>

definition transferOwnership :: "ctx \<Rightarrow> address \<Rightarrow> storage \<Rightarrow> error + storage" where
  "transferOwnership c newOwner s =
     (if owner s \<noteq> msg_sender c then Inl (Revert ''Ownable: caller is not the owner'')
      else if newOwner = 0 then Inl (Revert ''Ownable: new owner is the zero address'')
      else Inr (s\<lparr>owner := newOwner,
                  events := events s @ [OwnershipTransferred (owner s) newOwner]\<rparr>))"

definition renounceOwnership :: "ctx \<Rightarrow> storage \<Rightarrow> error + storage" where
  "renounceOwnership c s =
     (if owner s \<noteq> msg_sender c then Inl (Revert ''Ownable: caller is not the owner'')
      else Inr (s\<lparr>owner := 0, events := events s @ [OwnershipTransferred (owner s) 0]\<rparr>))"

definition emergencyWithdraw ::
  "'l env \<Rightarrow> ctx \<Rightarrow> address \<Rightarrow> address \<Rightarrow> uint256 \<Rightarrow> storage \<Rightarrow> 'l \<Rightarrow> error + 'l" where
  "emergencyWithdraw E c token to amount s l =
     (if owner s \<noteq> msg_sender c then Inl (Revert ''Ownable: caller is not the owner'')
      else if to = 0 then Inl (Revert ''Invalid recipient'')
      else if token = 0 then
        (case call_value E l to amount of
           None \<Rightarrow> Inl (Revert ''Transfer failed'')
         | Some l' \<Rightarrow> Inr l')
      else safeTransfer E token to amount l)"

section \<open>Plan management\<close>

definition createPlan ::
  "ctx \<Rightarrow> bytes32 \<Rightarrow> uint256 \<Rightarrow> address \<Rightarrow> uint32 \<Rightarrow> address \<Rightarrow> storage \<Rightarrow> error + storage" where
  "createPlan c planId amount token interval merchantAddress s =
     (if contract_paused s then Inl (Revert ''Pausable: paused'')
      else if plan_merchant (plans s planId) \<noteq> 0 then Inl (Revert ''Plan already exists'')
      else if \<not> amount > 0 then Inl (Revert ''Amount must be positive'')
      else if \<not> unat interval \<ge> ONE_DAY then Inl (Revert ''Interval too short'')
      else if merchantAddress = 0 then Inl (Revert ''Invalid merchant'')
      else if \<not> tokenSupported s token then Inl (Revert ''Token not supported'')
      else Inr (s\<lparr>plans := (plans s)(planId :=
                     \<lparr>plan_id = planId, plan_amount = amount, plan_token = token,
                      plan_interval = interval, plan_merchant = merchantAddress,
                      plan_active = True, plan_subscriberCount = 0,
                      plan_createdAt = block_timestamp c\<rparr>),
                  planIds := planIds s @ [planId],
                  events := events s @ [PlanCreated planId merchantAddress amount token interval]\<rparr>))"

definition updatePlan :: "ctx \<Rightarrow> bytes32 \<Rightarrow> bool \<Rightarrow> storage \<Rightarrow> error + storage" where
  "updatePlan c planId active s =
     (if \<not> planExists s planId then Inl (Revert ''Plan not found'')
      else if \<not> (msg_sender c = plan_merchant (plans s planId) \<or> msg_sender c = owner s)
        then Inl (Revert ''Not authorized'')
      else Inr (s\<lparr>plans := (plans s)(planId := (plans s planId)\<lparr>plan_active := active\<rparr>),
                  events := events s @ [PlanUpdated planId active]\<rparr>))"

section \<open>Payment execution\<close>

text \<open>
  \<^verbatim>\<open>_executePayment\<close> (first charge of a subscription): the caller pays. For the native
  token the caller sent \<open>msg_value\<close> with the call; the excess is sent back.
\<close>

definition internal_executePayment ::
  "'l env \<Rightarrow> uint256 \<Rightarrow> Plan \<Rightarrow> address \<Rightarrow> 'l \<Rightarrow> error + 'l" where
  "internal_executePayment E msg_value plan payer_addr l =
     (if plan_token plan = 0 then
        (if \<not> msg_value \<ge> plan_amount plan then Inl (Revert ''Insufficient payment'')
         else case call_value E l (plan_merchant plan) (plan_amount plan) of
                None \<Rightarrow> Inl (Revert ''Transfer failed'')
              | Some l1 \<Rightarrow>
                  if msg_value > plan_amount plan then
                    (case call_value E l1 payer_addr (msg_value - plan_amount plan) of
                       None \<Rightarrow> Inl (Revert ''Refund failed'')
                     | Some l2 \<Rightarrow> Inr l2)
                  else Inr l1)
      else safeTransferFrom E (plan_token plan) payer_addr (plan_merchant plan) (plan_amount plan) l)"

text \<open>
  \<^verbatim>\<open>_executePaymentFrom\<close> (renewal charges): the contract pulls from the payer. The
  native token cannot be pulled. The call to the token stands in a \<^verbatim>\<open>try\<close>: a token
  that reverts is caught and counts as a failed payment; a reply that cannot be
  decoded is not caught and reverts the whole call.
\<close>

definition internal_executePaymentFrom ::
  "'l env \<Rightarrow> Plan \<Rightarrow> address \<Rightarrow> 'l \<Rightarrow> error + (bool \<times> 'l)" where
  "internal_executePaymentFrom E plan payer_addr l =
     (if plan_token plan = 0 then Inr (False, l)
      else case transferFrom E l (plan_token plan) payer_addr (plan_merchant plan) (plan_amount plan) of
             Returned (success, l') \<Rightarrow> Inr (success, l')
           | Reverted \<Rightarrow> Inr (False, l)
           | Malformed \<Rightarrow> Inl (ExternalCallFailed ''transferFrom''))"

section \<open>Subscription management\<close>

definition internal_subscribe ::
  "'l env \<Rightarrow> ctx \<Rightarrow> uint256 \<Rightarrow> bytes32 \<Rightarrow> uint32 \<Rightarrow> storage \<Rightarrow> 'l \<Rightarrow> error + (bytes32 \<times> storage \<times> 'l)" where
  "internal_subscribe E c msg_value planId trialDays s l =
     (let plan = plans s planId in
      if \<not> plan_active plan then Inl (Revert ''Plan is inactive'')
      else if \<not> subscriptionNonce s + 1 < UINT256_LIMIT then Inl Panic
      else
        let nonce = subscriptionNonce s + 1;
            subscriptionId = keccak E planId (msg_sender c) (block_timestamp c) nonce;
            startTime_v = block_timestamp c;
            periodStart_v = startTime_v
        in
        if \<not> startTime_v + unat (plan_interval plan) < UINT256_LIMIT then Inl Panic
        else
          case (if trialDays > 0 then
                  (if \<not> startTime_v + unat trialDays * ONE_DAY < UINT256_LIMIT then Inl Panic
                   else Inr (startTime_v + unat trialDays * ONE_DAY, l))
                else
                  (case internal_executePayment E msg_value plan (msg_sender c) l of
                     Inl e \<Rightarrow> Inl e
                   | Inr l' \<Rightarrow> Inr (startTime_v + unat (plan_interval plan), l')))
          of
            Inl e \<Rightarrow> Inl e
          | Inr (periodEnd_v, l') \<Rightarrow>
              if \<not> plan_subscriberCount plan + 1 < UINT256_LIMIT then Inl Panic
              else
                let s1 = s\<lparr>subscriptionNonce := nonce,
                           subscriptions := (subscriptions s)(subscriptionId :=
                             \<lparr>sub_id = subscriptionId, sub_planId = planId,
                              subscriber = msg_sender c, status = Active,
                              startTime = startTime_v, currentPeriodStart = periodStart_v,
                              currentPeriodEnd = periodEnd_v, cancelAtPeriodEnd = False,
                              pausedAt = 0,
                              paymentCount = (if trialDays > 0 then 0 else 1)\<rparr>),
                           subscriptionIds := subscriptionIds s @ [subscriptionId],
                           userSubscriptions := (userSubscriptions s)(msg_sender c :=
                             userSubscriptions s (msg_sender c) @ [subscriptionId]),
                           planSubscriptions := (planSubscriptions s)(planId :=
                             planSubscriptions s planId @ [subscriptionId]),
                           plans := (plans s)(planId :=
                             plan\<lparr>plan_subscriberCount := plan_subscriberCount plan + 1\<rparr>)\<rparr>;
                    s2 = (if trialDays = 0 then
                            s1\<lparr>subscriptionPayments := (subscriptionPayments s1)(subscriptionId :=
                                  subscriptionPayments s1 subscriptionId @
                                    [\<lparr>rec_amount = plan_amount plan,
                                      rec_timestamp = block_timestamp c,
                                      periodStart = periodStart_v, periodEnd = periodEnd_v\<rparr>]),
                                events := events s1 @
                                  [PaymentExecuted subscriptionId (plan_amount plan)
                                     (block_timestamp c) periodStart_v periodEnd_v]\<rparr>
                          else s1)
                in Inr (subscriptionId,
                        s2\<lparr>events := events s2 @
                             [SubscriptionCreated subscriptionId planId (msg_sender c) startTime_v]\<rparr>,
                        l'))"

text \<open>\<^verbatim>\<open>subscribe\<close> is payable; \<^verbatim>\<open>subscribeWithTrial\<close> is not, so it runs with no value.\<close>

definition subscribe ::
  "'l env \<Rightarrow> ctx \<Rightarrow> uint256 \<Rightarrow> bytes32 \<Rightarrow> storage \<Rightarrow> 'l \<Rightarrow> error + (bytes32 \<times> storage \<times> 'l)" where
  "subscribe E c msg_value planId s l =
     (if contract_paused s then Inl (Revert ''Pausable: paused'')
      else nonReentrant (\<lambda>s l.
             if \<not> planExists s planId then Inl (Revert ''Plan not found'')
             else internal_subscribe E c msg_value planId 0 s l) s l)"

definition subscribeWithTrial ::
  "'l env \<Rightarrow> ctx \<Rightarrow> bytes32 \<Rightarrow> uint32 \<Rightarrow> storage \<Rightarrow> 'l \<Rightarrow> error + (bytes32 \<times> storage \<times> 'l)" where
  "subscribeWithTrial E c planId trialDays s l =
     (if contract_paused s then Inl (Revert ''Pausable: paused'')
      else nonReentrant (\<lambda>s l.
             if \<not> planExists s planId then Inl (Revert ''Plan not found'')
             else internal_subscribe E c 0 planId trialDays s l) s l)"

definition onlySubscriberOrMerchant :: "ctx \<Rightarrow> storage \<Rightarrow> bytes32 \<Rightarrow> bool" where
  "onlySubscriberOrMerchant c s subscriptionId =
     (let sub = subscriptions s subscriptionId; plan = plans s (sub_planId sub)
      in msg_sender c = subscriber sub \<or> msg_sender c = plan_merchant plan)"

definition cancelSubscription :: "ctx \<Rightarrow> bytes32 \<Rightarrow> bool \<Rightarrow> storage \<Rightarrow> error + storage" where
  "cancelSubscription c subscriptionId immediately s =
     (if \<not> subscriptionExists s subscriptionId then Inl (Revert ''Subscription not found'')
      else if \<not> onlySubscriberOrMerchant c s subscriptionId then Inl (Revert ''Not authorized'')
      else
        let sub = subscriptions s subscriptionId in
        if \<not> (status sub = Active \<or> status sub = Paused) then Inl (Revert ''Subscription not active'')
        else
          let s1 = (if immediately then
                      s\<lparr>subscriptions := (subscriptions s)(subscriptionId :=
                           sub\<lparr>status := Canceled, currentPeriodEnd := block_timestamp c\<rparr>),
                        events := events s @
                          [SubscriptionStatusChanged subscriptionId (status_uint8 (status sub))
                             (status_uint8 Canceled)]\<rparr>
                    else
                      s\<lparr>subscriptions := (subscriptions s)(subscriptionId :=
                           sub\<lparr>cancelAtPeriodEnd := True\<rparr>)\<rparr>)
          in Inr (s1\<lparr>events := events s1 @
                       [SubscriptionCanceled subscriptionId (block_timestamp c) immediately]\<rparr>))"

definition pauseSubscription :: "ctx \<Rightarrow> bytes32 \<Rightarrow> storage \<Rightarrow> error + storage" where
  "pauseSubscription c subscriptionId s =
     (if \<not> subscriptionExists s subscriptionId then Inl (Revert ''Subscription not found'')
      else if \<not> onlySubscriberOrMerchant c s subscriptionId then Inl (Revert ''Not authorized'')
      else
        let sub = subscriptions s subscriptionId in
        if status sub \<noteq> Active then Inl (Revert ''Subscription not active'')
        else Inr (s\<lparr>subscriptions := (subscriptions s)(subscriptionId :=
                       sub\<lparr>status := Paused, pausedAt := block_timestamp c\<rparr>),
                    events := events s @
                      [SubscriptionStatusChanged subscriptionId (status_uint8 (status sub))
                         (status_uint8 Paused)]\<rparr>))"

definition resumeSubscription :: "ctx \<Rightarrow> bytes32 \<Rightarrow> storage \<Rightarrow> error + storage" where
  "resumeSubscription c subscriptionId s =
     (if \<not> subscriptionExists s subscriptionId then Inl (Revert ''Subscription not found'')
      else
        let sub = subscriptions s subscriptionId in
        if msg_sender c \<noteq> subscriber sub then Inl (Revert ''Only subscriber can resume'')
        else if status sub \<noteq> Paused then Inl (Revert ''Subscription not paused'')
        else if \<not> pausedAt sub \<le> block_timestamp c then Inl Panic
        else
          let pausedDuration = block_timestamp c - pausedAt sub in
          if \<not> currentPeriodEnd sub + pausedDuration < UINT256_LIMIT then Inl Panic
          else Inr (s\<lparr>subscriptions := (subscriptions s)(subscriptionId :=
                         sub\<lparr>status := Active,
                             currentPeriodEnd := currentPeriodEnd sub + pausedDuration,
                             pausedAt := 0, cancelAtPeriodEnd := False\<rparr>),
                      events := events s @
                        [SubscriptionStatusChanged subscriptionId (status_uint8 (status sub))
                           (status_uint8 Active)]\<rparr>))"

section \<open>The charge engine\<close>

text \<open>
  \<^verbatim>\<open>_canCharge\<close>. On a token plan the two calls to the token, \<^verbatim>\<open>balanceOf\<close> and then
  \<^verbatim>\<open>allowance\<close>, are both made before either amount is compared; they are not
  guarded, so a call that fails reverts the function.
\<close>

definition internal_canCharge ::
  "'l env \<Rightarrow> ctx \<Rightarrow> bytes32 \<Rightarrow> storage \<Rightarrow> 'l \<Rightarrow> error + (bool \<times> ChargeFailReason)" where
  "internal_canCharge E c subscriptionId s l =
     (let sub = subscriptions s subscriptionId; plan = plans s (sub_planId sub) in
      if \<not> plan_active plan then Inr (False, PlanInactive)
      else if status sub = Canceled then Inr (False, ReasonCanceled)
      else if status sub = Paused then Inr (False, ReasonPaused)
      else if block_timestamp c < currentPeriodEnd sub then Inr (False, NotDue)
      else if plan_token plan = 0 then Inr (True, Success)
      else
        case balanceOf E l (plan_token plan) (subscriber sub) of
          Returned balance \<Rightarrow>
            (case allowance E l (plan_token plan) (subscriber sub) (this E) of
               Returned allowance_v \<Rightarrow>
                 if balance < plan_amount plan then Inr (False, InsufficientBalance)
                 else if allowance_v < plan_amount plan then Inr (False, NotApproved)
                 else Inr (True, Success)
             | Reverted \<Rightarrow> Inl (ExternalCallFailed ''allowance'')
             | Malformed \<Rightarrow> Inl (ExternalCallFailed ''allowance''))
        | Reverted \<Rightarrow> Inl (ExternalCallFailed ''balanceOf'')
        | Malformed \<Rightarrow> Inl (ExternalCallFailed ''balanceOf''))"

text \<open>The external view \<^verbatim>\<open>canCharge\<close> returns the reason as a \<^verbatim>\<open>uint8\<close>.\<close>

definition canCharge :: "'l env \<Rightarrow> ctx \<Rightarrow> bytes32 \<Rightarrow> storage \<Rightarrow> 'l \<Rightarrow> error + (bool \<times> nat)" where
  "canCharge E c subscriptionId s l =
     (case internal_canCharge E c subscriptionId s l of
        Inl e \<Rightarrow> Inl e
      | Inr (canChargeNow, failReason) \<Rightarrow> Inr (canChargeNow, reason_uint8 failReason))"

definition internal_chargeSubscription ::
  "'l env \<Rightarrow> ctx \<Rightarrow> bytes32 \<Rightarrow> storage \<Rightarrow> 'l \<Rightarrow> error + (bool \<times> storage \<times> 'l)" where
  "internal_chargeSubscription E c subscriptionId s l =
     (let sub = subscriptions s subscriptionId; plan = plans s (sub_planId sub) in
      if cancelAtPeriodEnd sub then
        Inr (False,
             s\<lparr>subscriptions := (subscriptions s)(subscriptionId := sub\<lparr>status := Canceled\<rparr>),
               events := events s @
                 [SubscriptionStatusChanged subscriptionId (status_uint8 (status sub))
                    (status_uint8 Canceled)]\<rparr>,
             l)
      else
        case internal_executePaymentFrom E plan (subscriber sub) l of
          Inl e \<Rightarrow> Inl e
        | Inr (paymentSuccess, l') \<Rightarrow>
        if \<not> paymentSuccess then
          Inr (False,
               s\<lparr>subscriptions := (subscriptions s)(subscriptionId := sub\<lparr>status := Expired\<rparr>),
                 events := events s @
                   [SubscriptionStatusChanged subscriptionId (status_uint8 (status sub))
                      (status_uint8 Expired),
                    PaymentFailed subscriptionId (reason_uint8 InsufficientBalance)]\<rparr>,
               l')
        else
          let newPeriodStart = currentPeriodEnd sub in
          if \<not> newPeriodStart + unat (plan_interval plan) < UINT256_LIMIT then Inl Panic
          else
            let newPeriodEnd = newPeriodStart + unat (plan_interval plan) in
            if \<not> paymentCount sub + 1 < UINT256_LIMIT then Inl Panic
            else
              Inr (True,
                   s\<lparr>subscriptions := (subscriptions s)(subscriptionId :=
                        sub\<lparr>currentPeriodStart := newPeriodStart,
                            currentPeriodEnd := newPeriodEnd,
                            paymentCount := paymentCount sub + 1\<rparr>),
                     subscriptionPayments := (subscriptionPayments s)(subscriptionId :=
                        subscriptionPayments s subscriptionId @
                          [\<lparr>rec_amount = plan_amount plan, rec_timestamp = block_timestamp c,
                            periodStart = newPeriodStart, periodEnd = newPeriodEnd\<rparr>]),
                     events := events s @
                       [PaymentExecuted subscriptionId (plan_amount plan) (block_timestamp c)
                          newPeriodStart newPeriodEnd]\<rparr>,
                   l'))"

definition charge ::
  "'l env \<Rightarrow> ctx \<Rightarrow> bytes32 \<Rightarrow> storage \<Rightarrow> 'l \<Rightarrow> error + (bool \<times> storage \<times> 'l)" where
  "charge E c subscriptionId s l =
     nonReentrant (\<lambda>s l.
       if \<not> subscriptionExists s subscriptionId then Inl (Revert ''Subscription not found'')
       else
         case internal_canCharge E c subscriptionId s l of
           Inl e \<Rightarrow> Inl e
         | Inr (canChargeNow, reason) \<Rightarrow>
             if \<not> canChargeNow then
               Inr (False,
                    s\<lparr>events := events s @ [PaymentFailed subscriptionId (reason_uint8 reason)]\<rparr>,
                    l)
             else internal_chargeSubscription E c subscriptionId s l) s l"

text \<open>
  One iteration of the loop of \<^verbatim>\<open>batchCharge\<close>, and the loop: \<open>results\<close> holds the
  entries \<^verbatim>\<open>results[0..i-1]\<close> written so far.
\<close>

definition batchCharge_item ::
  "'l env \<Rightarrow> ctx \<Rightarrow> bytes32 \<Rightarrow> storage \<Rightarrow> 'l \<Rightarrow> error + (bool \<times> storage \<times> 'l)" where
  "batchCharge_item E c subId s l =
     (if subscriber (subscriptions s subId) = 0 then Inr (False, s, l)
      else
        case internal_canCharge E c subId s l of
          Inl e \<Rightarrow> Inl e
        | Inr (canChargeNow, reason) \<Rightarrow>
            if canChargeNow then internal_chargeSubscription E c subId s l
            else Inr (False, s, l))"

fun batchCharge_loop ::
  "'l env \<Rightarrow> ctx \<Rightarrow> bytes32 list \<Rightarrow> bool list \<Rightarrow> storage \<Rightarrow> 'l \<Rightarrow> error + (bool list \<times> storage \<times> 'l)" where
  "batchCharge_loop E c [] results s l = Inr (results, s, l)"
| "batchCharge_loop E c (subId # rest) results s l =
     (case batchCharge_item E c subId s l of
        Inl e \<Rightarrow> Inl e
      | Inr (r, s', l') \<Rightarrow> batchCharge_loop E c rest (results @ [r]) s' l')"

definition batchCharge ::
  "'l env \<Rightarrow> ctx \<Rightarrow> bytes32 list \<Rightarrow> storage \<Rightarrow> 'l \<Rightarrow> error + (bool list \<times> storage \<times> 'l)" where
  "batchCharge E c subscriptionIds_arg s l =
     nonReentrant (\<lambda>s l.
       if \<not> length subscriptionIds_arg \<le> MAX_BATCH_SIZE then Inl (Revert ''Batch too large'')
       else batchCharge_loop E c subscriptionIds_arg [] s l) s l"

section \<open>Refunds and one-time payments\<close>

definition refund ::
  "'l env \<Rightarrow> ctx \<Rightarrow> uint256 \<Rightarrow> bytes32 \<Rightarrow> uint256 \<Rightarrow> address \<Rightarrow> storage \<Rightarrow> 'l \<Rightarrow> error + (unit \<times> storage \<times> 'l)" where
  "refund E c msg_value subscriptionId amount to s l =
     nonReentrant (\<lambda>s l.
       if \<not> subscriptionExists s subscriptionId then Inl (Revert ''Subscription not found'')
       else
         let sub = subscriptions s subscriptionId; plan = plans s (sub_planId sub) in
         if msg_sender c \<noteq> plan_merchant plan then Inl (Revert ''Only merchant can refund'')
         else if \<not> amount > 0 then Inl (Revert ''Amount must be positive'')
         else
           let recipient = (if to = 0 then subscriber sub else to) in
           case (if plan_token plan = 0 then
                   (if \<not> msg_value \<ge> amount then Inl (Revert ''Insufficient refund amount'')
                    else case call_value E l recipient amount of
                           None \<Rightarrow> Inl (Revert ''Refund failed'')
                         | Some l1 \<Rightarrow>
                             if msg_value > amount then
                               (case call_value E l1 (msg_sender c) (msg_value - amount) of
                                  None \<Rightarrow> Inl (Revert ''Return excess failed'')
                                | Some l2 \<Rightarrow> Inr l2)
                             else Inr l1)
                 else safeTransferFrom E (plan_token plan) (msg_sender c) recipient amount l)
           of
             Inl e \<Rightarrow> Inl e
           | Inr l' \<Rightarrow>
               Inr ((), s\<lparr>events := events s @ [Refunded subscriptionId recipient amount]\<rparr>, l')) s l"

definition pay ::
  "'l env \<Rightarrow> ctx \<Rightarrow> uint256 \<Rightarrow> bytes32 \<Rightarrow> uint256 \<Rightarrow> address \<Rightarrow> address \<Rightarrow> storage \<Rightarrow> 'l \<Rightarrow> error + (unit \<times> storage \<times> 'l)" where
  "pay E c msg_value orderId amount token merchant s l =
     (if contract_paused s then Inl (Revert ''Pausable: paused'')
      else nonReentrant (\<lambda>s l.
        if payer (payments s orderId) \<noteq> 0 then Inl (Revert ''Order already paid'')
        else if \<not> amount > 0 then Inl (Revert ''Amount must be positive'')
        else if merchant = 0 then Inl (Revert ''Invalid merchant'')
        else if \<not> tokenSupported s token then Inl (Revert ''Token not supported'')
        else
          case (if token = 0 then
                  (if \<not> msg_value \<ge> amount then Inl (Revert ''Insufficient payment'')
                   else case call_value E l merchant amount of
                          None \<Rightarrow> Inl (Revert ''Transfer failed'')
                        | Some l1 \<Rightarrow>
                            if msg_value > amount then
                              (case call_value E l1 (msg_sender c) (msg_value - amount) of
                                 None \<Rightarrow> Inl (Revert ''Refund failed'')
                               | Some l2 \<Rightarrow> Inr l2)
                            else Inr l1)
                else safeTransferFrom E token (msg_sender c) merchant amount l)
          of
            Inl e \<Rightarrow> Inl e
          | Inr l' \<Rightarrow>
              Inr ((), s\<lparr>payments := (payments s)(orderId :=
                             \<lparr>pay_orderId = orderId, payer = msg_sender c, pay_merchant = merchant,
                              pay_amount = amount, pay_token = token,
                              pay_timestamp = block_timestamp c, paid = True\<rparr>),
                         events := events s @
                           [PaymentReceived orderId (msg_sender c) merchant amount token]\<rparr>, l')) s l)"

definition getPayment ::
  "storage \<Rightarrow> bytes32 \<Rightarrow> bool \<times> address \<times> address \<times> uint256 \<times> address \<times> uint256" where
  "getPayment s orderId =
     (let p = payments s orderId
      in (paid p, payer p, pay_merchant p, pay_amount p, pay_token p, pay_timestamp p))"

section \<open>Transactions and sequences of calls\<close>

text \<open>
  Every state-changing external function of the contract as one call. \<open>exec\<close> runs a
  call in a context; a call that reverts changes nothing. Between two calls the
  ledger may change in any way (other parties move funds), so \<open>reaches\<close> lets every
  call see an arbitrary ledger, and an arbitrary sender and time stamp.
\<close>

datatype call =
    AddSupportedToken address
  | RemoveSupportedToken address
  | SetPaused bool
  | TransferOwnership address
  | RenounceOwnership
  | EmergencyWithdraw address address uint256
  | CreatePlan bytes32 uint256 address uint32 address
  | UpdatePlan bytes32 bool
  | Subscribe uint256 bytes32
  | SubscribeWithTrial bytes32 uint32
  | CancelSubscription bytes32 bool
  | PauseSubscription bytes32
  | ResumeSubscription bytes32
  | Charge bytes32
  | BatchCharge "bytes32 list"
  | Refund uint256 bytes32 uint256 address
  | Pay uint256 bytes32 uint256 address address

definition with_ledger :: "'l \<Rightarrow> error + storage \<Rightarrow> error + (storage \<times> 'l)" where
  "with_ledger l r = (case r of Inl e \<Rightarrow> Inl e | Inr s' \<Rightarrow> Inr (s', l))"

definition drop_result :: "error + ('a \<times> storage \<times> 'l) \<Rightarrow> error + (storage \<times> 'l)" where
  "drop_result r = (case r of Inl e \<Rightarrow> Inl e | Inr (x, s', l') \<Rightarrow> Inr (s', l'))"

fun exec :: "'l env \<Rightarrow> ctx \<Rightarrow> call \<Rightarrow> storage \<Rightarrow> 'l \<Rightarrow> error + (storage \<times> 'l)" where
  "exec E c (AddSupportedToken token) s l = with_ledger l (addSupportedToken c token s)"
| "exec E c (RemoveSupportedToken token) s l = with_ledger l (removeSupportedToken c token s)"
| "exec E c (SetPaused b) s l = with_ledger l (setPaused c b s)"
| "exec E c (TransferOwnership newOwner) s l = with_ledger l (transferOwnership c newOwner s)"
| "exec E c RenounceOwnership s l = with_ledger l (renounceOwnership c s)"
| "exec E c (EmergencyWithdraw token to amount) s l =
     (case emergencyWithdraw E c token to amount s l of Inl e \<Rightarrow> Inl e | Inr l' \<Rightarrow> Inr (s, l'))"
| "exec E c (CreatePlan planId amount token interval merchantAddress) s l =
     with_ledger l (createPlan c planId amount token interval merchantAddress s)"
| "exec E c (UpdatePlan planId active) s l = with_ledger l (updatePlan c planId active s)"
| "exec E c (Subscribe msg_value planId) s l = drop_result (subscribe E c msg_value planId s l)"
| "exec E c (SubscribeWithTrial planId trialDays) s l =
     drop_result (subscribeWithTrial E c planId trialDays s l)"
| "exec E c (CancelSubscription subscriptionId immediately) s l =
     with_ledger l (cancelSubscription c subscriptionId immediately s)"
| "exec E c (PauseSubscription subscriptionId) s l = with_ledger l (pauseSubscription c subscriptionId s)"
| "exec E c (ResumeSubscription subscriptionId) s l = with_ledger l (resumeSubscription c subscriptionId s)"
| "exec E c (Charge subscriptionId) s l = drop_result (charge E c subscriptionId s l)"
| "exec E c (BatchCharge ids) s l = drop_result (batchCharge E c ids s l)"
| "exec E c (Refund msg_value subscriptionId amount to) s l =
     drop_result (refund E c msg_value subscriptionId amount to s l)"
| "exec E c (Pay msg_value orderId amount token merchant) s l =
     drop_result (pay E c msg_value orderId amount token merchant s l)"

inductive reaches :: "'l env \<Rightarrow> storage \<Rightarrow> storage \<Rightarrow> bool" for E :: "'l env" where
  reaches_refl: "reaches E s s"
| reaches_step: "reaches E s s1 \<Longrightarrow> exec E c cl s1 l = Inr (s2, l2) \<Longrightarrow> reaches E s s2"

text \<open>
  The same with the clock of the chain, which never runs backwards: \<open>history E t G s\<close>
  says that \<open>s\<close> is reached from the constructor by calls whose time stamps do not
  decrease, that the last of them was made at time \<open>t\<close> (or none was made yet), and
  that \<open>G\<close> holds the identifiers that some successful call canceled at once.
\<close>

fun canceled_at_once :: "call \<Rightarrow> bytes32 set" where
  "canceled_at_once (CancelSubscription subscriptionId immediately) =
     (if immediately then {subscriptionId} else {})"
| "canceled_at_once cl = {}"

inductive history :: "'l env \<Rightarrow> uint256 \<Rightarrow> bytes32 set \<Rightarrow> storage \<Rightarrow> bool" for E :: "'l env" where
  history_init: "history E t {} (constructor deployer)"
| history_step: "history E t G s \<Longrightarrow> t \<le> block_timestamp c \<Longrightarrow> exec E c cl s l = Inr (s2, l2)
     \<Longrightarrow> history E (block_timestamp c) (G \<union> canceled_at_once cl) s2"

section \<open>A concrete ledger and concrete scenarios\<close>

text \<open>
  A simple token ledger, used to run the contract on concrete inputs: balances and
  allowances per token, and three switches per token. A frozen token reverts every
  transfer (as a paused or blacklisting token does); a mute token answers
  \<open>transferFrom\<close> with data that are not a boolean (as a token written without a
  return value does); a token that is gone has no code any more, so no call to it can
  be decoded. Native sends succeed and credit the recipient's balance under token \<open>0\<close>.
\<close>

record ledger =
  token_balance :: "address \<Rightarrow> address \<Rightarrow> uint256"
  token_allowance :: "address \<Rightarrow> address \<Rightarrow> address \<Rightarrow> uint256"
  token_frozen :: "address \<Rightarrow> bool"
  token_mute :: "address \<Rightarrow> bool"
  token_gone :: "address \<Rightarrow> bool"

definition demo_balanceOf :: "ledger \<Rightarrow> address \<Rightarrow> address \<Rightarrow> uint256 reply" where
  "demo_balanceOf l token holder =
     (if token_gone l token then Malformed else Returned (token_balance l token holder))"

definition demo_allowance :: "ledger \<Rightarrow> address \<Rightarrow> address \<Rightarrow> address \<Rightarrow> uint256 reply" where
  "demo_allowance l token holder spender =
     (if token_gone l token then Malformed else Returned (token_allowance l token holder spender))"

definition demo_transferFrom ::
  "address \<Rightarrow> ledger \<Rightarrow> address \<Rightarrow> address \<Rightarrow> address \<Rightarrow> uint256 \<Rightarrow> (bool \<times> ledger) reply" where
  "demo_transferFrom spender l token from to amount =
     (if token_gone l token \<or> token_mute l token then Malformed
      else if token_frozen l token \<or> token_balance l token from < amount
         \<or> token_allowance l token from spender < amount then Reverted
      else Returned (True,
        l\<lparr>token_balance := (token_balance l)(token :=
              ((token_balance l token)(from := token_balance l token from - amount))
                (to := ((token_balance l token)(from := token_balance l token from - amount)) to + amount)),
          token_allowance := (token_allowance l)(token :=
              (token_allowance l token)(from :=
                 (token_allowance l token from)(spender :=
                    token_allowance l token from spender - amount)))\<rparr>))"

definition demo_transfer ::
  "address \<Rightarrow> ledger \<Rightarrow> address \<Rightarrow> address \<Rightarrow> uint256 \<Rightarrow> (bool \<times> ledger) reply" where
  "demo_transfer sender_addr l token to amount =
     (if token_gone l token \<or> token_mute l token then Malformed
      else if token_frozen l token \<or> token_balance l token sender_addr < amount then Reverted
      else Returned (True,
        l\<lparr>token_balance := (token_balance l)(token :=
              ((token_balance l token)(sender_addr := token_balance l token sender_addr - amount))
                (to := ((token_balance l token)(sender_addr := token_balance l token sender_addr - amount)) to + amount))\<rparr>))"

definition demo_call_value :: "ledger \<Rightarrow> address \<Rightarrow> uint256 \<Rightarrow> ledger option" where
  "demo_call_value l to amount =
     Some (l\<lparr>token_balance := (token_balance l)(0 :=
              (token_balance l 0)(to := token_balance l 0 to + amount))\<rparr>)"

definition demo_env :: "ledger env" where
  "demo_env =
     \<lparr>this = 999,
      keccak = (\<lambda>planId sender_addr time nonce. 1000 + nonce),
      balanceOf = demo_balanceOf,
      allowance = demo_allowance,
      transferFrom = demo_transferFrom 999,
      transfer = demo_transfer 999,
      call_value = demo_call_value\<rparr>"

text \<open>
  The ledgers: in \<open>ledger_funded\<close> subscriber 7 holds 5000 of token 5, subscriber 8
  holds 5000 of token 6, and each has approved the contract for 5000;
  \<open>ledger_frozen\<close> is the same with token 5 frozen, \<open>ledger_mute\<close> the same with token
  5 mute, \<open>ledger_gone\<close> the same with token 6 gone; \<open>ledger_empty\<close> holds nothing. A
  ledger is \<open>sound\<close> when no token is mute or gone.
\<close>

definition ledger_empty :: ledger where
  "ledger_empty = \<lparr>token_balance = (\<lambda>_ _. 0), token_allowance = (\<lambda>_ _ _. 0),
     token_frozen = (\<lambda>_. False), token_mute = (\<lambda>_. False), token_gone = (\<lambda>_. False)\<rparr>"

definition ledger_funded :: ledger where
  "ledger_funded = \<lparr>token_balance = (\<lambda>_ _. 0)(5 := (\<lambda>_. 0)(7 := 5000), 6 := (\<lambda>_. 0)(8 := 5000)),
     token_allowance = (\<lambda>_ _ _. 0)(5 := (\<lambda>_ _. 0)(7 := (\<lambda>_. 0)(999 := 5000)),
                                    6 := (\<lambda>_ _. 0)(8 := (\<lambda>_. 0)(999 := 5000))),
     token_frozen = (\<lambda>_. False), token_mute = (\<lambda>_. False), token_gone = (\<lambda>_. False)\<rparr>"

definition ledger_frozen :: ledger where
  "ledger_frozen = ledger_funded\<lparr>token_frozen := (\<lambda>_. False)(5 := True)\<rparr>"

definition ledger_mute :: ledger where
  "ledger_mute = ledger_funded\<lparr>token_mute := (\<lambda>_. False)(5 := True)\<rparr>"

definition ledger_gone :: ledger where
  "ledger_gone = ledger_funded\<lparr>token_gone := (\<lambda>_. False)(6 := True)\<rparr>"


definition sound :: "ledger \<Rightarrow> bool" where
  "sound l = (\<forall>token. \<not> token_mute l token \<and> \<not> token_gone l token)"

text \<open>
  The scenarios. The owner is 1, the merchant is 50, the subscribers are 7 and 8. Plan
  11 charges 1000 of token 5 every day; plan 12 charges 1000 of the native token every
  day; plan 13 charges 1000 of token 6 every day; plan 0 has the all-zero identifier.
\<close>

definition state_of :: "error + (storage \<times> 'l) \<Rightarrow> storage" where
  "state_of r = (case r of Inr (s, l) \<Rightarrow> s | Inl e \<Rightarrow> constructor 0)"

definition at :: "address \<Rightarrow> uint256 \<Rightarrow> ctx" where
  "at who time = \<lparr>msg_sender = who, block_timestamp = time\<rparr>"

definition st_token :: storage where
  "st_token = state_of (exec demo_env (at 1 10) (AddSupportedToken 5) (constructor 1) ledger_empty)"

definition st_plan11 :: storage where
  "st_plan11 = state_of (exec demo_env (at 50 100) (CreatePlan 11 1000 5 86400 50) st_token ledger_empty)"

definition st_plans :: storage where
  "st_plans = state_of (exec demo_env (at 50 100) (CreatePlan 12 1000 0 86400 50) st_plan11 ledger_empty)"

definition st_sub11 :: storage where
  "st_sub11 = state_of (exec demo_env (at 7 1000) (Subscribe 0 11) st_plans ledger_funded)"


definition st_expired :: storage where
  "st_expired = state_of (exec demo_env (at 60 87400) (Charge 1001) st_sub11 ledger_frozen)"

definition st_canceled :: storage where
  "st_canceled = state_of (exec demo_env (at 7 1000) (CancelSubscription 1001 True) st_sub11 ledger_funded)"

definition st_canceled_inactive :: storage where
  "st_canceled_inactive =
     state_of (exec demo_env (at 50 2000) (UpdatePlan 11 False) st_canceled ledger_funded)"

definition st_plan0 :: storage where
  "st_plan0 = state_of (exec demo_env (at 50 100) (CreatePlan 0 1000 0 86400 50) (constructor 1) ledger_empty)"

text \<open>Two subscriptions on two tokens: 1001 of subscriber 7 on plan 11, 1002 of subscriber 8 on plan 13.\<close>

definition st_token6 :: storage where
  "st_token6 = state_of (exec demo_env (at 1 2000) (AddSupportedToken 6) st_sub11 ledger_funded)"

definition st_plan13 :: storage where
  "st_plan13 = state_of (exec demo_env (at 50 2000) (CreatePlan 13 1000 6 86400 50) st_token6 ledger_funded)"

definition st_two :: storage where
  "st_two = state_of (exec demo_env (at 8 2000) (Subscribe 0 13) st_plan13 ledger_funded)"

text \<open>Observing the outcome of a call.\<close>

definition succeeds :: "error + 'a \<Rightarrow> bool" where
  "succeeds r = (case r of Inl e \<Rightarrow> False | Inr x \<Rightarrow> True)"

definition returned :: "error + ('a \<times> storage \<times> 'l) \<Rightarrow> 'a" where
  "returned r = fst (projr r)"

definition storage_after :: "error + ('a \<times> storage \<times> 'l) \<Rightarrow> storage" where
  "storage_after r = fst (snd (projr r))"

definition ledger_after :: "error + ('a \<times> storage \<times> 'l) \<Rightarrow> 'l" where
  "ledger_after r = snd (snd (projr r))"

text \<open>
  What it means for the ledger to reject a transfer. A push of \<open>amount\<close> to \<open>to\<close> is
  rejected when the native send fails, or when the call of the token's
  \<open>transferFrom\<close> fails or returns false. The return of the excess of a native
  payment is rejected when the payment itself went through and sending
  \<open>msg_value - amount\<close> back fails.
\<close>

definition push_rejected ::
  "'l env \<Rightarrow> 'l \<Rightarrow> address \<Rightarrow> address \<Rightarrow> address \<Rightarrow> uint256 \<Rightarrow> bool" where
  "push_rejected E l token from to amount =
     (if token = 0 then (case call_value E l to amount of None \<Rightarrow> True | Some l1 \<Rightarrow> False)
      else (case transferFrom E l token from to amount of
              Returned (ok, l') \<Rightarrow> \<not> ok
            | Reverted \<Rightarrow> True
            | Malformed \<Rightarrow> True))"

definition excess_rejected ::
  "'l env \<Rightarrow> 'l \<Rightarrow> address \<Rightarrow> address \<Rightarrow> address \<Rightarrow> uint256 \<Rightarrow> uint256 \<Rightarrow> bool" where
  "excess_rejected E l token from to amount msg_value =
     (token = 0 \<and> amount < msg_value \<and>
      (case call_value E l to amount of
         None \<Rightarrow> False
       | Some l1 \<Rightarrow> (case call_value E l1 from (msg_value - amount) of
                       None \<Rightarrow> True
                     | Some l2 \<Rightarrow> False)))"

text \<open>
  The invariant behind the period fields, at time \<open>t\<close> and with \<open>G\<close> the identifiers
  canceled at once: every existing plan has an interval of at least one day; every
  existing subscription belongs to an existing plan, its period does not start in the
  future, its period end is not before its period start, and lies strictly after it
  unless the subscription was canceled at once and is still Canceled.
\<close>

definition period_invariant :: "uint256 \<Rightarrow> bytes32 set \<Rightarrow> storage \<Rightarrow> bool" where
  "period_invariant t G s =
     ((\<forall>p. planExists s p \<longrightarrow> ONE_DAY \<le> unat (plan_interval (plans s p))) \<and>
      (\<forall>x. subscriptionExists s x \<longrightarrow>
         planExists s (sub_planId (subscriptions s x)) \<and>
         currentPeriodStart (subscriptions s x) \<le> t \<and>
         currentPeriodStart (subscriptions s x) \<le> currentPeriodEnd (subscriptions s x) \<and>
         (x \<notin> G \<or> status (subscriptions s x) \<noteq> Canceled \<longrightarrow>
            currentPeriodStart (subscriptions s x) < currentPeriodEnd (subscriptions s x))))"

text \<open>
  For the batch: the results of a batch (the error, or the booleans returned); a batch
  result with one more boolean in front; how often an identifier was charged by a
  batch, that is the number of positions that hold the identifier and the result true;
  and a ledger that answers: on every ledger with the property \<open>P\<close> the balance and
  allowance queries return, no \<open>transferFrom\<close> is answered undecodably, and a
  \<open>transferFrom\<close> that returns leaves a ledger with the property \<open>P\<close>.
\<close>

definition results :: "error + (bool list \<times> storage \<times> 'l) \<Rightarrow> error + bool list" where
  "results r = (case r of Inl e \<Rightarrow> Inl e | Inr (rs, s, l) \<Rightarrow> Inr rs)"

definition prepend ::
  "bool \<Rightarrow> error + (bool list \<times> storage \<times> 'l) \<Rightarrow> error + (bool list \<times> storage \<times> 'l)" where
  "prepend r rest = (case rest of Inl e \<Rightarrow> Inl e | Inr (rs, s, l) \<Rightarrow> Inr (r # rs, s, l))"

definition charged :: "bytes32 list \<Rightarrow> bool list \<Rightarrow> bytes32 \<Rightarrow> nat" where
  "charged ids rs x = length (filter (\<lambda>p. fst p = x \<and> snd p) (zip ids rs))"

definition has_value :: "'a reply \<Rightarrow> bool" where
  "has_value r = (case r of Returned v \<Rightarrow> True | Reverted \<Rightarrow> False | Malformed \<Rightarrow> False)"

definition answers :: "'l env \<Rightarrow> ('l \<Rightarrow> bool) \<Rightarrow> bool" where
  "answers E P =
     (\<forall>l. P l \<longrightarrow>
        (\<forall>token holder. has_value (balanceOf E l token holder)) \<and>
        (\<forall>token holder spender. has_value (allowance E l token holder spender)) \<and>
        (\<forall>token from to amount.
           transferFrom E l token from to amount \<noteq> Malformed \<and>
           (\<forall>ok l'. transferFrom E l token from to amount = Returned (ok, l') \<longrightarrow> P l')))"

section \<open>Unfolding the model\<close>

lemmas op_defs = addSupportedToken_def createPlan_def updatePlan_def subscribe_def
  subscribeWithTrial_def internal_subscribe_def internal_executePayment_def
  internal_executePaymentFrom_def safeTransferFrom_def nonReentrant_def planExists_def
  subscriptionExists_def cancelSubscription_def onlySubscriberOrMerchant_def
  pauseSubscription_def resumeSubscription_def internal_canCharge_def canCharge_def
  internal_chargeSubscription_def charge_def batchCharge_item_def batchCharge_def refund_def
  pay_def getPayment_def UINT256_LIMIT_def ONE_DAY_def NOT_ENTERED_def ENTERED_def
  MAX_BATCH_SIZE_def zeroPlan_def zeroSubscription_def zeroPayment_def constructor_def
  with_ledger_def drop_result_def

lemmas demo_defs = state_of_def at_def demo_env_def ledger_empty_def ledger_funded_def
  demo_balanceOf_def demo_allowance_def demo_transferFrom_def demo_transfer_def demo_call_value_def succeeds_def returned_def
  storage_after_def ledger_after_def

lemmas scenario_defs = op_defs demo_defs Let_def st_token_def st_plan11_def st_plans_def

text \<open>Eligibility does not depend on the reentrancy guard or on the event log.\<close>

lemma internal_canCharge_guard [simp]:
  "internal_canCharge E c sid (s\<lparr>guard_status := g\<rparr>) l = internal_canCharge E c sid s l"
  by (simp add: internal_canCharge_def)

lemma canCharge_eligible:
  assumes "canCharge E c sid s l = Inr (True, r)"
  shows "internal_canCharge E c sid s l = Inr (True, Success)"
proof -
  obtain b fr where i: "internal_canCharge E c sid s l = Inr (b, fr)"
    using assms by (cases "internal_canCharge E c sid s l") (auto simp: canCharge_def)
  with assms have b: "b" by (simp add: canCharge_def)
  have "fr = Success"
    using i b
    by (auto simp: internal_canCharge_def Let_def split: if_splits reply.splits)
  with i b show ?thesis by simp
qed

lemma canCharge_ineligible:
  assumes "canCharge E c sid s l = Inr (False, r)"
  shows "\<exists>fr. internal_canCharge E c sid s l = Inr (False, fr) \<and> r = reason_uint8 fr"
  using assms by (cases "internal_canCharge E c sid s l") (auto simp: canCharge_def)

section \<open>Eligibility\<close>




section \<open>Trial subscriptions\<close>

text \<open>
  C3. On an existing, active plan, with the contract not paused, \<open>subscribeWithTrial\<close>
  with \<open>trialDays\<close> at least 1 succeeds (the counters and the time stamp being in the
  range of \<^verbatim>\<open>uint256\<close>), returns the new identifier, leaves the ledger as it was, and
  stores an Active subscription whose period starts now and ends \<open>trialDays\<close> days
  later, with payment count 0; the payment history is unchanged and the only event is
  SubscriptionCreated.
\<close>

theorem C3_subscribeWithTrial:
  assumes "\<not> contract_paused s"
    and "guard_status s = NOT_ENTERED"
    and "planExists s planId"
    and "plan_active (plans s planId)"
    and "0 < trialDays"
    and "subscriptionNonce s + 1 < UINT256_LIMIT"
    and "block_timestamp c + unat (plan_interval (plans s planId)) < UINT256_LIMIT"
    and "block_timestamp c + unat trialDays * ONE_DAY < UINT256_LIMIT"
    and "plan_subscriberCount (plans s planId) + 1 < UINT256_LIMIT"
    and "sid = keccak E planId (msg_sender c) (block_timestamp c) (subscriptionNonce s + 1)"
    and "r = subscribeWithTrial E c planId trialDays s l"
  shows "succeeds r \<and> returned r = sid \<and> ledger_after r = l \<and>
     subscriptions (storage_after r) sid =
       \<lparr>sub_id = sid, sub_planId = planId, subscriber = msg_sender c, status = Active,
        startTime = block_timestamp c, currentPeriodStart = block_timestamp c,
        currentPeriodEnd = block_timestamp c + unat trialDays * ONE_DAY,
        cancelAtPeriodEnd = False, pausedAt = 0, paymentCount = 0\<rparr> \<and>
     subscriptionPayments (storage_after r) = subscriptionPayments s \<and>
     events (storage_after r) = events s @ [SubscriptionCreated sid planId (msg_sender c) (block_timestamp c)]"
proof -
  from \<open>0 < trialDays\<close> have nz: "trialDays \<noteq> 0" by auto
  show ?thesis
    unfolding assms(10,11)
    using assms(1-9) nz
    by (simp add: subscribeWithTrial_def nonReentrant_def internal_subscribe_def planExists_def
        NOT_ENTERED_def ENTERED_def Let_def succeeds_def returned_def storage_after_def
        ledger_after_def)
qed

text \<open>A trial of 14 days on the native plan 12, at time 1000 with an empty ledger.\<close>

theorem C3_subscribeWithTrial_witness:
  "\<not> contract_paused st_plans \<and> guard_status st_plans = NOT_ENTERED \<and> planExists st_plans 12 \<and>
   plan_active (plans st_plans 12) \<and> (0::uint32) < 14 \<and>
   succeeds (subscribeWithTrial demo_env (at 7 1000) 12 14 st_plans ledger_empty) \<and>
   returned (subscribeWithTrial demo_env (at 7 1000) 12 14 st_plans ledger_empty) = 1001 \<and>
   ledger_after (subscribeWithTrial demo_env (at 7 1000) 12 14 st_plans ledger_empty) = ledger_empty \<and>
   subscriptions (storage_after (subscribeWithTrial demo_env (at 7 1000) 12 14 st_plans ledger_empty)) 1001 =
       \<lparr>sub_id = 1001, sub_planId = 12, subscriber = 7, status = Active,
        startTime = 1000, currentPeriodStart = 1000,
        currentPeriodEnd = 1000 + 14 * 86400,
        cancelAtPeriodEnd = False, pausedAt = 0, paymentCount = 0\<rparr> \<and>
   subscriptionPayments (storage_after (subscribeWithTrial demo_env (at 7 1000) 12 14 st_plans ledger_empty)) 1001 = []"
proof -
  have h: "\<not> contract_paused st_plans" "guard_status st_plans = NOT_ENTERED" "planExists st_plans 12"
     "plan_active (plans st_plans 12)" "(0::uint32) < 14" "subscriptionNonce st_plans + 1 < UINT256_LIMIT"
     "block_timestamp (at 7 1000) + unat (plan_interval (plans st_plans 12)) < UINT256_LIMIT"
     "block_timestamp (at 7 1000) + unat (14::uint32) * ONE_DAY < UINT256_LIMIT"
     "plan_subscriberCount (plans st_plans 12) + 1 < UINT256_LIMIT"
    by (simp_all add: scenario_defs)
  have k: "keccak demo_env 12 (msg_sender (at 7 1000)) (block_timestamp (at 7 1000)) (subscriptionNonce st_plans + 1) = 1001"
    by (simp add: scenario_defs)
  have p: "subscriptionPayments st_plans 1001 = []"
    by (simp add: scenario_defs)
  show ?thesis
    using C3_subscribeWithTrial [OF h k [symmetric] refl, of ledger_empty] h(1-5) p
    by (simp add: at_def ONE_DAY_def)
qed

text \<open>
  With \<open>trialDays = 0\<close> on the token plan 11 the call succeeds as a plain subscription:
  1000 is moved from the subscriber to the merchant, the payment count is 1, one
  payment record is written and the period ends one plan interval later.
\<close>

theorem C3_zero_trial_counterexample:
  "\<not> contract_paused st_plans \<and> planExists st_plans 11 \<and> plan_active (plans st_plans 11) \<and>
   succeeds (subscribeWithTrial demo_env (at 7 1000) 11 0 st_plans ledger_funded) \<and>
   returned (subscribeWithTrial demo_env (at 7 1000) 11 0 st_plans ledger_funded) = 1001 \<and>
   paymentCount (subscriptions (storage_after (subscribeWithTrial demo_env (at 7 1000) 11 0 st_plans ledger_funded)) 1001) = 1 \<and>
   length (subscriptionPayments (storage_after (subscribeWithTrial demo_env (at 7 1000) 11 0 st_plans ledger_funded)) 1001) = 1 \<and>
   currentPeriodEnd (subscriptions (storage_after (subscribeWithTrial demo_env (at 7 1000) 11 0 st_plans ledger_funded)) 1001) = 1000 + 86400 \<and>
   token_balance ledger_funded 5 7 = 5000 \<and>
   token_balance (ledger_after (subscribeWithTrial demo_env (at 7 1000) 11 0 st_plans ledger_funded)) 5 7 = 4000 \<and>
   token_balance (ledger_after (subscribeWithTrial demo_env (at 7 1000) 11 0 st_plans ledger_funded)) 5 50 = 1000"
  by (simp add: scenario_defs)

section \<open>Charging a Canceled subscription\<close>

text \<open>
  C4. For an existing subscription whose status is Canceled, \<open>charge\<close> returns false
  and changes neither the storage (period fields, payment count, history) nor the
  ledger; it appends one PaymentFailed event, whose reason is Canceled when the plan
  is active and PlanInactive when the plan is inactive.
\<close>

theorem C4_charge_canceled:
  assumes "guard_status s = NOT_ENTERED"
    and "subscriptionExists s sid"
    and "status (subscriptions s sid) = Canceled"
  shows "charge E c sid s l =
     Inr (False,
          s\<lparr>events := events s @
               [PaymentFailed sid
                  (if plan_active (plans s (sub_planId (subscriptions s sid)))
                   then reason_uint8 ReasonCanceled else reason_uint8 PlanInactive)]\<rparr>,
          l)"
  using assms
  by (cases s) (simp add: charge_def nonReentrant_def internal_canCharge_def subscriptionExists_def
      NOT_ENTERED_def ENTERED_def Let_def)

text \<open>The subscription 1001, canceled at once, on the still active plan 11.\<close>

theorem C4_charge_canceled_witness:
  "guard_status st_canceled = NOT_ENTERED \<and> subscriptionExists st_canceled 1001 \<and>
   status (subscriptions st_canceled 1001) = Canceled \<and>
   charge demo_env (at 60 87400) 1001 st_canceled ledger_funded =
     Inr (False, st_canceled\<lparr>events := events st_canceled @ [PaymentFailed 1001 (reason_uint8 ReasonCanceled)]\<rparr>, ledger_funded)"
proof -
  have h: "guard_status st_canceled = NOT_ENTERED" "subscriptionExists st_canceled 1001"
      "status (subscriptions st_canceled 1001) = Canceled"
      "plan_active (plans st_canceled (sub_planId (subscriptions st_canceled 1001)))"
    by (simp_all add: scenario_defs st_canceled_def st_sub11_def)
  show ?thesis
    using C4_charge_canceled [OF h(1) h(2) h(3), of demo_env "at 60 87400" ledger_funded] h
    by simp
qed

text \<open>
  After the merchant has deactivated plan 11, \<open>charge\<close> on the Canceled subscription
  reports PlanInactive, not Canceled.
\<close>

theorem C4_inactive_plan_counterexample:
  "subscriptionExists st_canceled_inactive 1001 \<and>
   status (subscriptions st_canceled_inactive 1001) = Canceled \<and>
   succeeds (charge demo_env (at 60 87400) 1001 st_canceled_inactive ledger_funded) \<and>
   returned (charge demo_env (at 60 87400) 1001 st_canceled_inactive ledger_funded) = False \<and>
   events (storage_after (charge demo_env (at 60 87400) 1001 st_canceled_inactive ledger_funded))
     = events st_canceled_inactive @ [PaymentFailed 1001 (reason_uint8 PlanInactive)] \<and>
   reason_uint8 PlanInactive \<noteq> reason_uint8 ReasonCanceled"
  by (simp add: scenario_defs st_canceled_inactive_def st_canceled_def st_sub11_def)

section \<open>A successful renewal\<close>



section \<open>Unknown subscription identifiers\<close>

text \<open>
  C10. For an identifier under which no subscription is stored, provided the plan
  with the all-zero identifier is not active, \<open>canCharge\<close> answers
  (false, PlanInactive) without failing, while \<open>charge\<close> reverts with
  "Subscription not found" (and so changes nothing).
\<close>

theorem C10_unknown_subscription:
  assumes "subscriptions s sid = zeroSubscription"
    and "\<not> plan_active (plans s 0)"
    and "guard_status s = NOT_ENTERED"
  shows "canCharge E c sid s l = Inr (False, reason_uint8 PlanInactive) \<and>
         charge E c sid s l = Inl (Revert ''Subscription not found'')"
  using assms
  by (simp add: canCharge_def charge_def nonReentrant_def internal_canCharge_def subscriptionExists_def
      NOT_ENTERED_def ENTERED_def Let_def zeroSubscription_def)

text \<open>Identifier 77 in a state with the plans 11 and 12 and the subscription 1001.\<close>

theorem C10_unknown_subscription_witness:
  "subscriptions st_sub11 77 = zeroSubscription \<and> \<not> plan_active (plans st_sub11 0) \<and>
   guard_status st_sub11 = NOT_ENTERED \<and>
   canCharge demo_env (at 60 87400) 77 st_sub11 ledger_funded = Inr (False, reason_uint8 PlanInactive) \<and>
   charge demo_env (at 60 87400) 77 st_sub11 ledger_funded = Inl (Revert ''Subscription not found'')"
proof -
  have h: "subscriptions st_sub11 77 = zeroSubscription" "\<not> plan_active (plans st_sub11 0)"
      "guard_status st_sub11 = NOT_ENTERED"
    by (simp_all add: scenario_defs st_sub11_def)
  show ?thesis
    using C10_unknown_subscription [OF h, of demo_env "at 60 87400" ledger_funded] h
    by simp
qed

text \<open>
  Once a native plan with the identifier 0 exists and is active, \<open>canCharge\<close> on the
  unknown identifier 77 answers (true, Success).
\<close>

theorem C10_zero_plan_counterexample:
  "\<not> subscriptionExists st_plan0 77 \<and>
   canCharge demo_env (at 60 87400) 77 st_plan0 ledger_empty = Inr (True, reason_uint8 Success)"
  by (simp add: op_defs demo_defs Let_def st_plan0_def)

section \<open>Charging an Expired subscription\<close>

text \<open>
  C1. The code at an Expired subscription. Subscription 1001 became Expired when the
  pull at time 87400 was rejected by the frozen token. Once the token accepts
  transfers again, a further \<open>charge\<close> returns true: 1000 moves from the subscriber to
  the merchant, the period advances to 87400..173800, the payment count becomes 2 and
  a second payment record is appended, while the status stays Expired.
\<close>

theorem C1_expired_subscription_charged:
  "status (subscriptions st_expired 1001) = Expired \<and>
   currentPeriodStart (subscriptions st_expired 1001) = 1000 \<and>
   currentPeriodEnd (subscriptions st_expired 1001) = 87400 \<and>
   paymentCount (subscriptions st_expired 1001) = 1 \<and>
   length (subscriptionPayments st_expired 1001) = 1 \<and>
   token_balance ledger_funded 5 7 = 5000 \<and>
   succeeds (charge demo_env (at 60 87400) 1001 st_expired ledger_funded) \<and>
   returned (charge demo_env (at 60 87400) 1001 st_expired ledger_funded) = True \<and>
   token_balance (ledger_after (charge demo_env (at 60 87400) 1001 st_expired ledger_funded)) 5 7 = 4000 \<and>
   token_balance (ledger_after (charge demo_env (at 60 87400) 1001 st_expired ledger_funded)) 5 50 = 1000 \<and>
   subscriptions (storage_after (charge demo_env (at 60 87400) 1001 st_expired ledger_funded)) 1001 =
     \<lparr>sub_id = 1001, sub_planId = 11, subscriber = 7, status = Expired,
      startTime = 1000, currentPeriodStart = 87400, currentPeriodEnd = 173800,
      cancelAtPeriodEnd = False, pausedAt = 0, paymentCount = 2\<rparr> \<and>
   length (subscriptionPayments (storage_after (charge demo_env (at 60 87400) 1001 st_expired ledger_funded)) 1001) = 2"
  by (simp add: scenario_defs st_expired_def st_sub11_def ledger_frozen_def)

section \<open>Rejected transfers\<close>

text \<open>
  A rejected transfer (the payment itself, or the return of the excess of a native
  payment) makes \<open>subscribe\<close>, \<open>pay\<close> and \<open>refund\<close> revert, which leaves the storage
  and the ledger as they were before the call.
\<close>

lemma push_transfer_rejected:
  assumes "push_rejected E l token who to amount \<or> excess_rejected E l token who to amount v"
  shows "\<exists>e. (if token = 0 then
                (if \<not> v \<ge> amount then Inl (Revert msg1)
                 else case call_value E l to amount of
                        None \<Rightarrow> Inl (Revert msg2)
                      | Some l1 \<Rightarrow>
                          if v > amount then
                            (case call_value E l1 who (v - amount) of
                               None \<Rightarrow> Inl (Revert msg3)
                             | Some l2 \<Rightarrow> Inr l2)
                          else Inr l1)
              else safeTransferFrom E token who to amount l) = Inl e"
proof (cases "token = 0")
  case True
  with assms show ?thesis
    by (cases "call_value E l to amount")
       (auto simp: push_rejected_def excess_rejected_def split: option.splits)
next
  case False
  with assms show ?thesis
    by (cases "transferFrom E l token who to amount")
       (auto simp: push_rejected_def excess_rejected_def safeTransferFrom_def)
qed

lemma executePayment_rejected:
  assumes "push_rejected E l (plan_token plan) who (plan_merchant plan) (plan_amount plan) \<or>
     excess_rejected E l (plan_token plan) who (plan_merchant plan) (plan_amount plan) v"
  shows "\<exists>e. internal_executePayment E v plan who l = Inl e"
  unfolding internal_executePayment_def by (rule push_transfer_rejected [OF assms])

lemma internal_subscribe_rejected:
  assumes "internal_executePayment E v (plans s planId) (msg_sender c) l = Inl e"
  shows "\<exists>e'. internal_subscribe E c v planId 0 s l = Inl e'"
  using assms by (simp add: internal_subscribe_def Let_def)

lemma nonReentrant_rejected:
  assumes "\<exists>e. body (s\<lparr>guard_status := ENTERED\<rparr>) l = Inl e"
  shows "\<not> succeeds (nonReentrant body s l)"
  using assms by (auto simp: nonReentrant_def succeeds_def)

lemma subscribe_rejected:
  assumes "push_rejected E l (plan_token (plans s planId)) (msg_sender c)
             (plan_merchant (plans s planId)) (plan_amount (plans s planId)) \<or>
           excess_rejected E l (plan_token (plans s planId)) (msg_sender c)
             (plan_merchant (plans s planId)) (plan_amount (plans s planId)) v"
  shows "\<not> succeeds (subscribe E c v planId s l)"
proof (cases "contract_paused s")
  case True
  then show ?thesis by (simp add: subscribe_def succeeds_def)
next
  case False
  obtain e where "internal_executePayment E v (plans s planId) (msg_sender c) l = Inl e"
    using executePayment_rejected [OF assms] by blast
  then have "\<exists>e'. internal_subscribe E c v planId 0 (s\<lparr>guard_status := ENTERED\<rparr>) l = Inl e'"
    using internal_subscribe_rejected [of E v "s\<lparr>guard_status := ENTERED\<rparr>" planId c l e] by simp
  then have "\<exists>e. (\<lambda>s l. if \<not> planExists s planId then Inl (Revert ''Plan not found'')
             else internal_subscribe E c v planId 0 s l) (s\<lparr>guard_status := ENTERED\<rparr>) l = Inl e"
    by auto
  then have "\<not> succeeds (nonReentrant (\<lambda>s l. if \<not> planExists s planId then Inl (Revert ''Plan not found'')
             else internal_subscribe E c v planId 0 s l) s l)"
    by (rule nonReentrant_rejected)
  then show ?thesis
    using False by (simp add: subscribe_def)
qed

lemma pay_rejected:
  assumes "push_rejected E l token (msg_sender c) merchant amount \<or>
           excess_rejected E l token (msg_sender c) merchant amount v"
  shows "\<not> succeeds (pay E c v orderId amount token merchant s l)"
proof (cases "contract_paused s")
  case True
  then show ?thesis by (simp add: pay_def succeeds_def)
next
  case False
  obtain e where e: "(if token = 0 then
                (if \<not> v \<ge> amount then Inl (Revert ''Insufficient payment'')
                 else case call_value E l merchant amount of
                        None \<Rightarrow> Inl (Revert ''Transfer failed'')
                      | Some l1 \<Rightarrow>
                          if v > amount then
                            (case call_value E l1 (msg_sender c) (v - amount) of
                               None \<Rightarrow> Inl (Revert ''Refund failed'')
                             | Some l2 \<Rightarrow> Inr l2)
                          else Inr l1)
              else safeTransferFrom E token (msg_sender c) merchant amount l) = Inl e"
    using push_transfer_rejected [OF assms] by blast
  show ?thesis
    unfolding pay_def using False
    by (simp only: if_False, intro nonReentrant_rejected) (simp add: e)
qed

lemma refund_rejected:
  assumes "push_rejected E l (plan_token (plans s (sub_planId (subscriptions s sid))))
             (msg_sender c) (if to = 0 then subscriber (subscriptions s sid) else to) amount \<or>
           excess_rejected E l (plan_token (plans s (sub_planId (subscriptions s sid))))
             (msg_sender c) (if to = 0 then subscriber (subscriptions s sid) else to) amount v"
  shows "\<not> succeeds (refund E c v sid amount to s l)"
proof -
  obtain e where e: "(if plan_token (plans s (sub_planId (subscriptions s sid))) = 0 then
                (if \<not> v \<ge> amount then Inl (Revert ''Insufficient refund amount'')
                 else case call_value E l (if to = 0 then subscriber (subscriptions s sid) else to) amount of
                        None \<Rightarrow> Inl (Revert ''Refund failed'')
                      | Some l1 \<Rightarrow>
                          if v > amount then
                            (case call_value E l1 (msg_sender c) (v - amount) of
                               None \<Rightarrow> Inl (Revert ''Return excess failed'')
                             | Some l2 \<Rightarrow> Inr l2)
                          else Inr l1)
              else safeTransferFrom E (plan_token (plans s (sub_planId (subscriptions s sid))))
                     (msg_sender c) (if to = 0 then subscriber (subscriptions s sid) else to) amount l) = Inl e"
    using push_transfer_rejected [OF assms] by blast
  show ?thesis
    unfolding refund_def
    by (intro nonReentrant_rejected) (simp add: e Let_def)
qed

text \<open>
  A pull that the contract sees fail (the plan is paid in the native token, the token
  reverts, or the token returns false) on an existing, eligible subscription without
  the cancel-at-period-end flag: \<open>charge\<close> returns false and changes one thing in the
  subscription, its status, which becomes Expired.
\<close>

lemma charge_pull_rejected:
  assumes "guard_status s = NOT_ENTERED"
    and "subscriptionExists s sid"
    and "canCharge E c sid s l = Inr (True, r)"
    and "\<not> cancelAtPeriodEnd (subscriptions s sid)"
    and "internal_executePaymentFrom E (plans s (sub_planId (subscriptions s sid)))
           (subscriber (subscriptions s sid)) l = Inr (False, l')"
  shows "charge E c sid s l =
            Inr (False,
                 s\<lparr>subscriptions := (subscriptions s)(sid := (subscriptions s sid)\<lparr>status := Expired\<rparr>),
                   events := events s @
                     [SubscriptionStatusChanged sid (status_uint8 (status (subscriptions s sid))) (status_uint8 Expired),
                      PaymentFailed sid (reason_uint8 InsufficientBalance)]\<rparr>,
                 l')"
proof -
  have cc: "internal_canCharge E c sid (s\<lparr>guard_status := ENTERED\<rparr>) l = Inr (True, Success)"
    using canCharge_eligible [OF assms(3)] by simp
  have cs: "internal_chargeSubscription E c sid (s\<lparr>guard_status := ENTERED\<rparr>) l =
      Inr (False,
           s\<lparr>guard_status := ENTERED,
             subscriptions := (subscriptions s)(sid := (subscriptions s sid)\<lparr>status := Expired\<rparr>),
             events := events s @
               [SubscriptionStatusChanged sid (status_uint8 (status (subscriptions s sid))) (status_uint8 Expired),
                PaymentFailed sid (reason_uint8 InsufficientBalance)]\<rparr>, l')"
    using assms(4,5) by (simp add: internal_chargeSubscription_def Let_def)
  show ?thesis
    using assms(1,2) cc cs
    by (cases s) (simp add: charge_def nonReentrant_def subscriptionExists_def NOT_ENTERED_def ENTERED_def)
qed

text \<open>
  C7. The code at a pull whose reply cannot be decoded. Subscription 1001 is Active,
  due and eligible at time 87400 (balance and allowance are 5000). When the token
  reverts the pull, \<open>charge\<close> returns false and the subscription becomes Expired. When
  the token answers \<open>transferFrom\<close> with data that are not a boolean, the \<^verbatim>\<open>try\<close>
  statement does not catch it: \<open>charge\<close> reverts instead of returning false, and the
  subscription is not marked Expired (a reverted call changes nothing).
\<close>

theorem C7_undecodable_pull_reverts:
  "subscriptionExists st_sub11 1001 \<and>
   status (subscriptions st_sub11 1001) = Active \<and>
   \<not> cancelAtPeriodEnd (subscriptions st_sub11 1001) \<and>
   canCharge demo_env (at 60 87400) 1001 st_sub11 ledger_frozen = Inr (True, reason_uint8 Success) \<and>
   transferFrom demo_env ledger_frozen 5 7 50 1000 = Reverted \<and>
   returned (charge demo_env (at 60 87400) 1001 st_sub11 ledger_frozen) = False \<and>
   status (subscriptions (storage_after (charge demo_env (at 60 87400) 1001 st_sub11 ledger_frozen)) 1001)
     = Expired \<and>
   canCharge demo_env (at 60 87400) 1001 st_sub11 ledger_mute = Inr (True, reason_uint8 Success) \<and>
   transferFrom demo_env ledger_mute 5 7 50 1000 = Malformed \<and>
   \<not> succeeds (charge demo_env (at 60 87400) 1001 st_sub11 ledger_mute) \<and>
   charge demo_env (at 60 87400) 1001 st_sub11 ledger_mute = Inl (ExternalCallFailed ''transferFrom'')"
  by (simp add: scenario_defs st_sub11_def ledger_mute_def ledger_frozen_def)

section \<open>What each function changes\<close>

lemma nonReentrant_result:
  assumes "nonReentrant body s l = Inr (r, s', l')"
  shows "\<exists>s1. body (s\<lparr>guard_status := ENTERED\<rparr>) l = Inr (r, s1, l') \<and>
              s' = s1\<lparr>guard_status := NOT_ENTERED\<rparr> \<and> guard_status s \<noteq> ENTERED"
  using assms by (auto simp: nonReentrant_def split: if_splits sum.splits)

lemma with_ledger_result:
  assumes "with_ledger l r = Inr (s', l')"
  shows "r = Inr s'"
  using assms by (auto simp: with_ledger_def split: sum.splits)

lemma drop_result_result:
  assumes "drop_result r = Inr (s', l')"
  shows "\<exists>x. r = Inr (x, s', l')"
  using assms by (auto simp: drop_result_def split: sum.splits)

lemma succeeds_result:
  assumes "succeeds r"
  shows "r = Inr (returned r, storage_after r, ledger_after r)"
  using assms by (cases r) (auto simp: succeeds_def returned_def storage_after_def ledger_after_def)

lemma admin_frame:
  shows "addSupportedToken c token s = Inr s' \<Longrightarrow>
           plans s' = plans s \<and> subscriptions s' = subscriptions s \<and> payments s' = payments s"
    and "removeSupportedToken c token s = Inr s' \<Longrightarrow>
           plans s' = plans s \<and> subscriptions s' = subscriptions s \<and> payments s' = payments s"
    and "setPaused c b s = Inr s' \<Longrightarrow>
           plans s' = plans s \<and> subscriptions s' = subscriptions s \<and> payments s' = payments s"
    and "transferOwnership c newOwner s = Inr s' \<Longrightarrow>
           plans s' = plans s \<and> subscriptions s' = subscriptions s \<and> payments s' = payments s"
    and "renounceOwnership c s = Inr s' \<Longrightarrow>
           plans s' = plans s \<and> subscriptions s' = subscriptions s \<and> payments s' = payments s"
  by (auto simp: addSupportedToken_def removeSupportedToken_def setPaused_def
      transferOwnership_def renounceOwnership_def split: if_splits)

lemma lifecycle_payments:
  shows "createPlan c planId amount token interval m s = Inr s' \<Longrightarrow> payments s' = payments s"
    and "updatePlan c planId active s = Inr s' \<Longrightarrow> payments s' = payments s"
    and "cancelSubscription c sid imm s = Inr s' \<Longrightarrow> payments s' = payments s"
    and "pauseSubscription c sid s = Inr s' \<Longrightarrow> payments s' = payments s"
    and "resumeSubscription c sid s = Inr s' \<Longrightarrow> payments s' = payments s"
  by (auto simp: createPlan_def updatePlan_def cancelSubscription_def pauseSubscription_def
      resumeSubscription_def Let_def split: if_splits)

lemma plain_calls_guard:
  shows "addSupportedToken c token s = Inr s' \<Longrightarrow> guard_status s' = guard_status s"
    and "removeSupportedToken c token s = Inr s' \<Longrightarrow> guard_status s' = guard_status s"
    and "setPaused c b s = Inr s' \<Longrightarrow> guard_status s' = guard_status s"
    and "transferOwnership c newOwner s = Inr s' \<Longrightarrow> guard_status s' = guard_status s"
    and "renounceOwnership c s = Inr s' \<Longrightarrow> guard_status s' = guard_status s"
    and "createPlan c planId amount token interval m s = Inr s' \<Longrightarrow> guard_status s' = guard_status s"
    and "updatePlan c planId active s = Inr s' \<Longrightarrow> guard_status s' = guard_status s"
    and "cancelSubscription c sid imm s = Inr s' \<Longrightarrow> guard_status s' = guard_status s"
    and "pauseSubscription c sid s = Inr s' \<Longrightarrow> guard_status s' = guard_status s"
    and "resumeSubscription c sid s = Inr s' \<Longrightarrow> guard_status s' = guard_status s"
  by (auto simp: addSupportedToken_def removeSupportedToken_def setPaused_def
      transferOwnership_def renounceOwnership_def createPlan_def updatePlan_def
      cancelSubscription_def pauseSubscription_def resumeSubscription_def Let_def
      split: if_splits)

lemma internal_subscribe_result:
  assumes "internal_subscribe E c v planId trialDays s l = Inr (sid, s', l')"
  shows "subscriptions s' = (subscriptions s)(sid :=
        \<lparr>sub_id = sid, sub_planId = planId, subscriber = msg_sender c, status = Active,
         startTime = block_timestamp c, currentPeriodStart = block_timestamp c,
         currentPeriodEnd =
           (if trialDays > 0 then block_timestamp c + unat trialDays * ONE_DAY
            else block_timestamp c + unat (plan_interval (plans s planId))),
         cancelAtPeriodEnd = False, pausedAt = 0,
         paymentCount = (if trialDays > 0 then 0 else 1)\<rparr>) \<and>
     plans s' = (plans s)(planId :=
        (plans s planId)\<lparr>plan_subscriberCount := plan_subscriberCount (plans s planId) + 1\<rparr>) \<and>
     payments s' = payments s \<and> guard_status s' = guard_status s \<and>
     contract_paused s' = contract_paused s \<and> owner s' = owner s"
proof (cases "trialDays > 0")
  case True
  then have nz: "trialDays \<noteq> 0" by auto
  from assms True nz show ?thesis
    by (auto simp: internal_subscribe_def Let_def split: if_splits)
next
  case False
  then have z: "trialDays = 0" by (simp add: word_gt_0)
  from assms z show ?thesis
    by (auto simp: internal_subscribe_def Let_def split: if_splits sum.splits)
qed

lemma subscribe_result:
  assumes "subscribe E c v planId s l = Inr (sid, s', l')"
  shows "\<exists>s1. internal_subscribe E c v planId 0 (s\<lparr>guard_status := ENTERED\<rparr>) l = Inr (sid, s1, l') \<and>
              s' = s1\<lparr>guard_status := NOT_ENTERED\<rparr> \<and> planExists s planId"
proof -
  from assms have "nonReentrant (\<lambda>s l. if \<not> planExists s planId then Inl (Revert ''Plan not found'')
             else internal_subscribe E c v planId 0 s l) s l = Inr (sid, s', l')"
    by (simp add: subscribe_def split: if_splits)
  from nonReentrant_result [OF this] obtain s1 where
    b: "(if \<not> planExists (s\<lparr>guard_status := ENTERED\<rparr>) planId then Inl (Revert ''Plan not found'')
         else internal_subscribe E c v planId 0 (s\<lparr>guard_status := ENTERED\<rparr>) l) = Inr (sid, s1, l')"
    and s': "s' = s1\<lparr>guard_status := NOT_ENTERED\<rparr>"
    by auto
  from b s' show ?thesis by (auto simp: planExists_def split: if_splits)
qed

lemma subscribeWithTrial_result:
  assumes "subscribeWithTrial E c planId trialDays s l = Inr (sid, s', l')"
  shows "\<exists>s1. internal_subscribe E c 0 planId trialDays (s\<lparr>guard_status := ENTERED\<rparr>) l = Inr (sid, s1, l') \<and>
              s' = s1\<lparr>guard_status := NOT_ENTERED\<rparr> \<and> planExists s planId"
proof -
  from assms have "nonReentrant (\<lambda>s l. if \<not> planExists s planId then Inl (Revert ''Plan not found'')
             else internal_subscribe E c 0 planId trialDays s l) s l = Inr (sid, s', l')"
    by (simp add: subscribeWithTrial_def split: if_splits)
  from nonReentrant_result [OF this] obtain s1 where
    b: "(if \<not> planExists (s\<lparr>guard_status := ENTERED\<rparr>) planId then Inl (Revert ''Plan not found'')
         else internal_subscribe E c 0 planId trialDays (s\<lparr>guard_status := ENTERED\<rparr>) l) = Inr (sid, s1, l')"
    and s': "s' = s1\<lparr>guard_status := NOT_ENTERED\<rparr>"
    by auto
  from b s' show ?thesis by (auto simp: planExists_def split: if_splits)
qed

lemma canCharge_True:
  assumes "internal_canCharge E c sid s l = Inr (True, fr)"
  shows "fr = Success"
    and "status (subscriptions s sid) \<noteq> Canceled"
    and "currentPeriodEnd (subscriptions s sid) \<le> block_timestamp c"
  using assms
  by (auto simp: internal_canCharge_def Let_def split: if_splits reply.splits)

lemma chargeSubscription_frame:
  assumes "internal_chargeSubscription E c sid s l = Inr (r, s', l')"
  shows "plans s' = plans s" and "payments s' = payments s"
    and "guard_status s' = guard_status s" and "contract_paused s' = contract_paused s"
    and "x \<noteq> sid \<Longrightarrow> subscriptions s' x = subscriptions s x"
    and "subscriber (subscriptions s' sid) = subscriber (subscriptions s sid)"
    and "sub_planId (subscriptions s' sid) = sub_planId (subscriptions s sid)"
  using assms
  by (auto simp: internal_chargeSubscription_def Let_def split: if_splits prod.splits sum.splits)

lemma chargeSubscription_cases:
  assumes "internal_chargeSubscription E c sid s l = Inr (r, s', l')"
  shows "(\<not> r \<and> subscriptions s' = (subscriptions s)(sid := (subscriptions s sid)\<lparr>status := Canceled\<rparr>) \<and>
          subscriptionPayments s' = subscriptionPayments s) \<or>
         (\<not> r \<and> subscriptions s' = (subscriptions s)(sid := (subscriptions s sid)\<lparr>status := Expired\<rparr>) \<and>
          subscriptionPayments s' = subscriptionPayments s) \<or>
         (r \<and> subscriptions s' = (subscriptions s)(sid := (subscriptions s sid)
            \<lparr>currentPeriodStart := currentPeriodEnd (subscriptions s sid),
             currentPeriodEnd := currentPeriodEnd (subscriptions s sid)
                + unat (plan_interval (plans s (sub_planId (subscriptions s sid)))),
             paymentCount := paymentCount (subscriptions s sid) + 1\<rparr>) \<and>
          (\<exists>pr. subscriptionPayments s' = (subscriptionPayments s)(sid := subscriptionPayments s sid @ [pr])))"
  using assms
  by (auto simp: internal_chargeSubscription_def Let_def split: if_splits prod.splits sum.splits)

lemma batchCharge_item_cases:
  assumes "batchCharge_item E c sid s l = Inr (r, s', l')"
  shows "(r = False \<and> s' = s \<and> l' = l) \<or>
         (subscriber (subscriptions s sid) \<noteq> 0 \<and>
          internal_canCharge E c sid s l = Inr (True, Success) \<and>
          internal_chargeSubscription E c sid s l = Inr (r, s', l'))"
proof (cases "internal_canCharge E c sid s l")
  case (Inl e)
  with assms show ?thesis by (auto simp: batchCharge_item_def split: if_splits)
next
  case (Inr p)
  obtain b fr where p: "p = (b, fr)" by (cases p)
  show ?thesis
  proof (cases b)
    case True
    with Inr p have "internal_canCharge E c sid s l = Inr (True, fr)" by simp
    with canCharge_True(1) [OF this] have "internal_canCharge E c sid s l = Inr (True, Success)"
      by simp
    with assms show ?thesis by (auto simp: batchCharge_item_def split: if_splits)
  next
    case False
    with assms Inr p show ?thesis by (auto simp: batchCharge_item_def split: if_splits)
  qed
qed

lemma batchCharge_item_frame:
  assumes "batchCharge_item E c sid s l = Inr (r, s', l')"
  shows "plans s' = plans s" and "payments s' = payments s"
    and "guard_status s' = guard_status s" and "contract_paused s' = contract_paused s"
    and "x \<noteq> sid \<Longrightarrow> subscriptions s' x = subscriptions s x"
    and "subscriber (subscriptions s' sid) = subscriber (subscriptions s sid)"
    and "sub_planId (subscriptions s' sid) = sub_planId (subscriptions s sid)"
  using batchCharge_item_cases [OF assms] chargeSubscription_frame [of E c sid s l r s' l']
  by auto

lemma payments_batchCharge_loop:
  assumes "batchCharge_loop E c ids acc s l = Inr (rs, s', l')"
  shows "payments s' = payments s \<and> guard_status s' = guard_status s \<and>
         contract_paused s' = contract_paused s"
  using assms
proof (induction ids arbitrary: acc s l)
  case Nil
  then show ?case by simp
next
  case (Cons a ids)
  from Cons.prems obtain r s1 l1 where
    it: "batchCharge_item E c a s l = Inr (r, s1, l1)"
    and rest: "batchCharge_loop E c ids (acc @ [r]) s1 l1 = Inr (rs, s', l')"
    by (auto split: sum.splits)
  show ?case
    using Cons.IH [OF rest] batchCharge_item_frame(2,3,4) [OF it] by simp
qed

lemma charge_cases:
  assumes "charge E c sid s l = Inr (r, s', l')"
  shows "\<exists>s1. s' = s1\<lparr>guard_status := NOT_ENTERED\<rparr> \<and>
           subscriber (subscriptions s sid) \<noteq> 0 \<and>
           ((\<exists>e. s1 = s\<lparr>guard_status := ENTERED, events := e\<rparr> \<and> l' = l \<and> r = False) \<or>
            (internal_canCharge E c sid s l = Inr (True, Success) \<and>
             internal_chargeSubscription E c sid (s\<lparr>guard_status := ENTERED\<rparr>) l = Inr (r, s1, l')))"
proof -
  from nonReentrant_result [OF assms [unfolded charge_def]] obtain s1 where
    b: "(if \<not> subscriptionExists (s\<lparr>guard_status := ENTERED\<rparr>) sid then Inl (Revert ''Subscription not found'')
       else
         case internal_canCharge E c sid (s\<lparr>guard_status := ENTERED\<rparr>) l of
           Inl e \<Rightarrow> Inl e
         | Inr (canChargeNow, reason) \<Rightarrow>
             if \<not> canChargeNow then
               Inr (False,
                    s\<lparr>guard_status := ENTERED\<rparr>\<lparr>events := events (s\<lparr>guard_status := ENTERED\<rparr>) @ [PaymentFailed sid (reason_uint8 reason)]\<rparr>,
                    l)
             else internal_chargeSubscription E c sid (s\<lparr>guard_status := ENTERED\<rparr>) l) = Inr (r, s1, l')"
    and s': "s' = s1\<lparr>guard_status := NOT_ENTERED\<rparr>"
    by auto
  from b have ex: "subscriber (subscriptions s sid) \<noteq> 0"
    by (auto simp: subscriptionExists_def split: if_splits)
  show ?thesis
  proof (cases "internal_canCharge E c sid s l")
    case (Inl e)
    with b ex show ?thesis by (simp add: subscriptionExists_def)
  next
    case (Inr p)
    obtain ok fr where p: "p = (ok, fr)" by (cases p)
    show ?thesis
    proof (cases ok)
      case True
      with Inr p have t: "internal_canCharge E c sid s l = Inr (True, fr)" by simp
      from canCharge_True(1) [OF t] t have "internal_canCharge E c sid s l = Inr (True, Success)"
        by simp
      with b ex s' show ?thesis by (auto simp: subscriptionExists_def)
    next
      case False
      with b ex s' Inr p show ?thesis by (auto simp: subscriptionExists_def)
    qed
  qed
qed

lemma batchCharge_cases:
  assumes "batchCharge E c ids s l = Inr (rs, s', l')"
  shows "\<exists>s1. batchCharge_loop E c ids [] (s\<lparr>guard_status := ENTERED\<rparr>) l = Inr (rs, s1, l') \<and>
              s' = s1\<lparr>guard_status := NOT_ENTERED\<rparr> \<and> length ids \<le> MAX_BATCH_SIZE"
proof -
  from nonReentrant_result [OF assms [unfolded batchCharge_def]] obtain s1 where
    b: "(if \<not> length ids \<le> MAX_BATCH_SIZE then Inl (Revert ''Batch too large'')
         else batchCharge_loop E c ids [] (s\<lparr>guard_status := ENTERED\<rparr>) l) = Inr (rs, s1, l')"
    and s': "s' = s1\<lparr>guard_status := NOT_ENTERED\<rparr>"
    by auto
  then show ?thesis by (auto split: if_splits)
qed

lemma refund_frame:
  assumes "refund E c v sid amount to s l = Inr (r, s', l')"
  shows "\<exists>e. s' = s\<lparr>events := e, guard_status := NOT_ENTERED\<rparr> \<and> guard_status s \<noteq> ENTERED"
proof -
  from nonReentrant_result [OF assms [unfolded refund_def]] show ?thesis
    by (auto simp: Let_def split: if_splits sum.splits)
qed

lemma pay_frame:
  assumes "pay E c v orderId amount token merchant s l = Inr (r, s', l')"
  shows "\<exists>e. s' = s\<lparr>payments := (payments s)(orderId :=
                             \<lparr>pay_orderId = orderId, payer = msg_sender c, pay_merchant = merchant,
                              pay_amount = amount, pay_token = token,
                              pay_timestamp = block_timestamp c, paid = True\<rparr>),
                     events := e, guard_status := NOT_ENTERED\<rparr>"
    and "payer (payments s orderId) = 0" and "\<not> contract_paused s" and "guard_status s \<noteq> ENTERED"
proof -
  from assms have np: "\<not> contract_paused s" by (auto simp: pay_def split: if_splits)
  with assms have "nonReentrant (\<lambda>s l.
        if payer (payments s orderId) \<noteq> 0 then Inl (Revert ''Order already paid'')
        else if \<not> amount > 0 then Inl (Revert ''Amount must be positive'')
        else if merchant = 0 then Inl (Revert ''Invalid merchant'')
        else if \<not> tokenSupported s token then Inl (Revert ''Token not supported'')
        else
          case (if token = 0 then
                  (if \<not> v \<ge> amount then Inl (Revert ''Insufficient payment'')
                   else case call_value E l merchant amount of
                          None \<Rightarrow> Inl (Revert ''Transfer failed'')
                        | Some l1 \<Rightarrow>
                            if v > amount then
                              (case call_value E l1 (msg_sender c) (v - amount) of
                                 None \<Rightarrow> Inl (Revert ''Refund failed'')
                               | Some l2 \<Rightarrow> Inr l2)
                            else Inr l1)
                else safeTransferFrom E token (msg_sender c) merchant amount l)
          of
            Inl e \<Rightarrow> Inl e
          | Inr l' \<Rightarrow>
              Inr ((), s\<lparr>payments := (payments s)(orderId :=
                             \<lparr>pay_orderId = orderId, payer = msg_sender c, pay_merchant = merchant,
                              pay_amount = amount, pay_token = token,
                              pay_timestamp = block_timestamp c, paid = True\<rparr>),
                         events := events s @
                           [PaymentReceived orderId (msg_sender c) merchant amount token]\<rparr>, l')) s l
      = Inr (r, s', l')"
    by (simp add: pay_def)
  from nonReentrant_result [OF this]
  show "\<exists>e. s' = s\<lparr>payments := (payments s)(orderId :=
                             \<lparr>pay_orderId = orderId, payer = msg_sender c, pay_merchant = merchant,
                              pay_amount = amount, pay_token = token,
                              pay_timestamp = block_timestamp c, paid = True\<rparr>),
                     events := e, guard_status := NOT_ENTERED\<rparr>"
    and "payer (payments s orderId) = 0" and "guard_status s \<noteq> ENTERED"
    by (auto split: if_splits sum.splits)
  show "\<not> contract_paused s" by (rule np)
qed

section \<open>The period invariant\<close>

text \<open>
  Every call made at a time not before the time of the state preserves
  \<open>period_invariant\<close>, for the time of the call and the identifiers canceled at once
  so far.
\<close>

lemma period_invariant_later:
  assumes "period_invariant t G s" and "t \<le> t'" and "G \<subseteq> G'"
  shows "period_invariant t' G' s"
  unfolding period_invariant_def
proof (intro conjI allI impI)
  fix p assume "planExists s p"
  with assms(1) show "ONE_DAY \<le> unat (plan_interval (plans s p))"
    by (simp add: period_invariant_def)
next
  fix x assume "subscriptionExists s x"
  with assms(1) show "planExists s (sub_planId (subscriptions s x))"
    by (simp add: period_invariant_def)
next
  fix x assume "subscriptionExists s x"
  with assms(1) have "currentPeriodStart (subscriptions s x) \<le> t"
    by (simp add: period_invariant_def)
  with assms(2) show "currentPeriodStart (subscriptions s x) \<le> t'" by simp
next
  fix x assume "subscriptionExists s x"
  with assms(1) show "currentPeriodStart (subscriptions s x) \<le> currentPeriodEnd (subscriptions s x)"
    by (simp add: period_invariant_def)
next
  fix x assume e: "subscriptionExists s x"
    and d: "x \<notin> G' \<or> status (subscriptions s x) \<noteq> Canceled"
  from d assms(3) have "x \<notin> G \<or> status (subscriptions s x) \<noteq> Canceled" by auto
  with assms(1) e show "currentPeriodStart (subscriptions s x) < currentPeriodEnd (subscriptions s x)"
    by (simp add: period_invariant_def)
qed

lemma period_invariant_same:
  assumes "period_invariant t G s"
    and "plans s' = plans s \<and> subscriptions s' = subscriptions s \<and> payments s' = payments s"
  shows "period_invariant t G s'"
  using assms by (simp add: period_invariant_def planExists_def subscriptionExists_def)

lemma period_invariant_guard [simp]:
  "period_invariant t G (s\<lparr>guard_status := g\<rparr>) = period_invariant t G s"
  by (simp add: period_invariant_def planExists_def subscriptionExists_def)

lemma period_invariant_events [simp]:
  "period_invariant t G (s\<lparr>events := e\<rparr>) = period_invariant t G s"
  by (simp add: period_invariant_def planExists_def subscriptionExists_def)

lemma period_invariant_constructor: "period_invariant t G (constructor d)"
  by (simp add: period_invariant_def planExists_def subscriptionExists_def constructor_def
      zeroPlan_def zeroSubscription_def)

lemma period_invariant_createPlan:
  assumes "period_invariant t G s" and "createPlan c planId amount token interval m s = Inr s'"
  shows "period_invariant t G s'"
  using assms
  by (auto simp: period_invariant_def planExists_def subscriptionExists_def createPlan_def
      split: if_splits)

lemma period_invariant_updatePlan:
  assumes "period_invariant t G s" and "updatePlan c planId active s = Inr s'"
  shows "period_invariant t G s'"
  using assms
  by (auto simp: period_invariant_def planExists_def subscriptionExists_def updatePlan_def
      split: if_splits)

lemma period_invariant_period:
  assumes "period_invariant t G s" and "subscriber (subscriptions s x) \<noteq> 0"
    and "status (subscriptions s x) \<noteq> Canceled"
  shows "currentPeriodStart (subscriptions s x) < currentPeriodEnd (subscriptions s x)"
  using assms by (simp add: period_invariant_def subscriptionExists_def)

lemma period_invariant_weak:
  assumes "period_invariant t G s" and "subscriber (subscriptions s x) \<noteq> 0"
  shows "currentPeriodStart (subscriptions s x) \<le> currentPeriodEnd (subscriptions s x)"
    and "currentPeriodStart (subscriptions s x) \<le> t"
  using assms by (simp_all add: period_invariant_def subscriptionExists_def)

lemma period_invariant_interval:
  assumes "period_invariant t G s" and "subscriber (subscriptions s x) \<noteq> 0"
  shows "0 < unat (plan_interval (plans s (sub_planId (subscriptions s x))))"
proof -
  from assms have "ONE_DAY \<le> unat (plan_interval (plans s (sub_planId (subscriptions s x))))"
    by (simp add: period_invariant_def subscriptionExists_def)
  then show ?thesis by (simp add: ONE_DAY_def)
qed

lemma period_invariant_plan:
  assumes "period_invariant t G s" and "subscriber (subscriptions s x) \<noteq> 0"
  shows "planExists s (sub_planId (subscriptions s x))"
  using assms by (simp add: period_invariant_def subscriptionExists_def)

lemma period_invariant_update_plans:
  assumes "period_invariant t G s"
    and "\<And>p. plan_merchant (plans s' p) = plan_merchant (plans s p)"
    and "\<And>p. plan_interval (plans s' p) = plan_interval (plans s p)"
    and "subscriptions s' = (subscriptions s)(sid := sub')"
    and "subscriber sub' \<noteq> 0 \<Longrightarrow> planExists s (sub_planId sub')"
    and "subscriber sub' \<noteq> 0 \<Longrightarrow> currentPeriodStart sub' \<le> t"
    and "subscriber sub' \<noteq> 0 \<Longrightarrow> currentPeriodStart sub' \<le> currentPeriodEnd sub'"
    and "subscriber sub' \<noteq> 0 \<Longrightarrow> sid \<notin> G \<or> status sub' \<noteq> Canceled \<Longrightarrow>
           currentPeriodStart sub' < currentPeriodEnd sub'"
  shows "period_invariant t G s'"
  using assms
  by (simp add: period_invariant_def planExists_def subscriptionExists_def)

lemma period_invariant_update:
  assumes "period_invariant t G s"
    and "plans s' = plans s"
    and "subscriptions s' = (subscriptions s)(sid := sub')"
    and "subscriber sub' \<noteq> 0 \<Longrightarrow> planExists s (sub_planId sub')"
    and "subscriber sub' \<noteq> 0 \<Longrightarrow> currentPeriodStart sub' \<le> t"
    and "subscriber sub' \<noteq> 0 \<Longrightarrow> currentPeriodStart sub' \<le> currentPeriodEnd sub'"
    and "subscriber sub' \<noteq> 0 \<Longrightarrow> sid \<notin> G \<or> status sub' \<noteq> Canceled \<Longrightarrow>
           currentPeriodStart sub' < currentPeriodEnd sub'"
  shows "period_invariant t G s'"
  using assms
  by (simp add: period_invariant_def planExists_def subscriptionExists_def)

lemma period_invariant_cancel:
  assumes "period_invariant t G s" and "t \<le> block_timestamp c"
    and "cancelSubscription c sid imm s = Inr s'"
  shows "period_invariant (block_timestamp c) (G \<union> canceled_at_once (CancelSubscription sid imm)) s'"
proof -
  let ?sub = "subscriptions s sid"
  let ?G = "G \<union> canceled_at_once (CancelSubscription sid imm)"
  have inv: "period_invariant (block_timestamp c) ?G s"
    by (rule period_invariant_later [OF assms(1,2)]) simp
  from assms(3) have ex: "subscriber ?sub \<noteq> 0"
    and st: "status ?sub = Active \<or> status ?sub = Paused"
    by (auto simp: cancelSubscription_def subscriptionExists_def Let_def split: if_splits)
  from st have nc: "status ?sub \<noteq> Canceled" by auto
  have lt: "currentPeriodStart ?sub < currentPeriodEnd ?sub"
    by (rule period_invariant_period [OF inv ex nc])
  have le: "currentPeriodStart ?sub \<le> block_timestamp c"
    by (rule period_invariant_weak(2) [OF inv ex])
  have pl: "planExists s (sub_planId ?sub)" by (rule period_invariant_plan [OF inv ex])
  show ?thesis
  proof (cases imm)
    case True
    with assms(3) have p: "plans s' = plans s"
      and su: "subscriptions s' = (subscriptions s)(sid :=
                 ?sub\<lparr>status := Canceled, currentPeriodEnd := block_timestamp c\<rparr>)"
      by (auto simp: cancelSubscription_def Let_def split: if_splits)
    show ?thesis
      by (rule period_invariant_update [OF inv p su]) (use pl le True in simp_all)
  next
    case False
    with assms(3) have p: "plans s' = plans s"
      and su: "subscriptions s' = (subscriptions s)(sid := ?sub\<lparr>cancelAtPeriodEnd := True\<rparr>)"
      by (auto simp: cancelSubscription_def Let_def split: if_splits)
    show ?thesis
      by (rule period_invariant_update [OF inv p su]) (use pl le lt in simp_all)
  qed
qed

lemma period_invariant_pause:
  assumes "period_invariant t G s" and "pauseSubscription c sid s = Inr s'"
  shows "period_invariant t G s'"
proof -
  let ?sub = "subscriptions s sid"
  from assms(2) have ex: "subscriber ?sub \<noteq> 0" and st: "status ?sub = Active"
    and p: "plans s' = plans s"
    and su: "subscriptions s' = (subscriptions s)(sid :=
               ?sub\<lparr>status := Paused, pausedAt := block_timestamp c\<rparr>)"
    by (auto simp: pauseSubscription_def subscriptionExists_def Let_def split: if_splits)
  from st have nc: "status ?sub \<noteq> Canceled" by simp
  have lt: "currentPeriodStart ?sub < currentPeriodEnd ?sub"
    by (rule period_invariant_period [OF assms(1) ex nc])
  have le: "currentPeriodStart ?sub \<le> t" by (rule period_invariant_weak(2) [OF assms(1) ex])
  have pl: "planExists s (sub_planId ?sub)" by (rule period_invariant_plan [OF assms(1) ex])
  show ?thesis
    by (rule period_invariant_update [OF assms(1) p su]) (use pl le lt in simp_all)
qed

lemma period_invariant_resume:
  assumes "period_invariant t G s" and "resumeSubscription c sid s = Inr s'"
  shows "period_invariant t G s'"
proof -
  let ?sub = "subscriptions s sid"
  from assms(2) have ex: "subscriber ?sub \<noteq> 0"
    and st: "status ?sub = Paused"
    and p: "plans s' = plans s"
    and su: "subscriptions s' = (subscriptions s)(sid :=
                       ?sub\<lparr>status := Active,
                           currentPeriodEnd := currentPeriodEnd ?sub + (block_timestamp c - pausedAt ?sub),
                           pausedAt := 0, cancelAtPeriodEnd := False\<rparr>)"
    by (auto simp: resumeSubscription_def subscriptionExists_def Let_def split: if_splits)
  from st have nc: "status ?sub \<noteq> Canceled" by simp
  have lt: "currentPeriodStart ?sub < currentPeriodEnd ?sub"
    by (rule period_invariant_period [OF assms(1) ex nc])
  have le: "currentPeriodStart ?sub \<le> t" by (rule period_invariant_weak(2) [OF assms(1) ex])
  have pl: "planExists s (sub_planId ?sub)" by (rule period_invariant_plan [OF assms(1) ex])
  show ?thesis
    by (rule period_invariant_update [OF assms(1) p su]) (use pl le lt in simp_all)
qed

lemma period_invariant_internal_subscribe:
  assumes "period_invariant (block_timestamp c) G s" and "planExists s planId"
    and "internal_subscribe E c v planId trialDays s l = Inr (sid, s', l')"
  shows "period_invariant (block_timestamp c) G s'"
proof -
  note r = internal_subscribe_result [OF assms(3)]
  from assms(1,2) have "ONE_DAY \<le> unat (plan_interval (plans s planId))"
    by (simp add: period_invariant_def)
  then have pos: "0 < unat (plan_interval (plans s planId))" by (simp add: ONE_DAY_def)
  have tpos: "trialDays > 0 \<Longrightarrow> 0 < unat trialDays * ONE_DAY"
    by (simp add: ONE_DAY_def unat_gt_0 word_gt_0)
  show ?thesis
  proof (rule period_invariant_update_plans [OF assms(1)])
    show "subscriptions s' = (subscriptions s)(sid :=
        \<lparr>sub_id = sid, sub_planId = planId, subscriber = msg_sender c, status = Active,
         startTime = block_timestamp c, currentPeriodStart = block_timestamp c,
         currentPeriodEnd =
           (if trialDays > 0 then block_timestamp c + unat trialDays * ONE_DAY
            else block_timestamp c + unat (plan_interval (plans s planId))),
         cancelAtPeriodEnd = False, pausedAt = 0,
         paymentCount = (if trialDays > 0 then 0 else 1)\<rparr>)"
      using r by simp
  qed (use r assms(2) pos tpos in \<open>auto simp: planExists_def\<close>)
qed

lemma period_invariant_subscribe:
  assumes "period_invariant (block_timestamp c) G s"
    and "subscribe E c v planId s l = Inr (sid, s', l')"
  shows "period_invariant (block_timestamp c) G s'"
proof -
  from subscribe_result [OF assms(2)] obtain s1 where
    isub: "internal_subscribe E c v planId 0 (s\<lparr>guard_status := ENTERED\<rparr>) l = Inr (sid, s1, l')"
    and s': "s' = s1\<lparr>guard_status := NOT_ENTERED\<rparr>" and pe: "planExists s planId"
    by auto
  from pe have pe': "planExists (s\<lparr>guard_status := ENTERED\<rparr>) planId" by (simp add: planExists_def)
  have "period_invariant (block_timestamp c) G s1"
    by (rule period_invariant_internal_subscribe [OF _ pe' isub]) (simp add: assms(1))
  then show ?thesis by (simp add: s')
qed

lemma period_invariant_subscribeWithTrial:
  assumes "period_invariant (block_timestamp c) G s"
    and "subscribeWithTrial E c planId trialDays s l = Inr (sid, s', l')"
  shows "period_invariant (block_timestamp c) G s'"
proof -
  from subscribeWithTrial_result [OF assms(2)] obtain s1 where
    isub: "internal_subscribe E c 0 planId trialDays (s\<lparr>guard_status := ENTERED\<rparr>) l = Inr (sid, s1, l')"
    and s': "s' = s1\<lparr>guard_status := NOT_ENTERED\<rparr>" and pe: "planExists s planId"
    by auto
  from pe have pe': "planExists (s\<lparr>guard_status := ENTERED\<rparr>) planId" by (simp add: planExists_def)
  have "period_invariant (block_timestamp c) G s1"
    by (rule period_invariant_internal_subscribe [OF _ pe' isub]) (simp add: assms(1))
  then show ?thesis by (simp add: s')
qed

lemma period_invariant_chargeSubscription:
  assumes "period_invariant (block_timestamp c) G s" and "subscriber (subscriptions s sid) \<noteq> 0"
    and "internal_canCharge E c sid s l = Inr (True, fr)"
    and "internal_chargeSubscription E c sid s l = Inr (r, s', l')"
  shows "period_invariant (block_timestamp c) G s'"
proof -
  let ?sub = "subscriptions s sid"
  have nc: "status ?sub \<noteq> Canceled" by (rule canCharge_True(2) [OF assms(3)])
  have due: "currentPeriodEnd ?sub \<le> block_timestamp c" by (rule canCharge_True(3) [OF assms(3)])
  have lt: "currentPeriodStart ?sub < currentPeriodEnd ?sub"
    by (rule period_invariant_period [OF assms(1,2) nc])
  have le: "currentPeriodStart ?sub \<le> block_timestamp c"
    by (rule period_invariant_weak(2) [OF assms(1,2)])
  have pl: "planExists s (sub_planId ?sub)" by (rule period_invariant_plan [OF assms(1,2)])
  have pos: "0 < unat (plan_interval (plans s (sub_planId ?sub)))"
    by (rule period_invariant_interval [OF assms(1,2)])
  have p: "plans s' = plans s" by (rule chargeSubscription_frame(1) [OF assms(4)])
  from chargeSubscription_cases [OF assms(4)] show ?thesis
  proof (elim disjE conjE exE)
    assume "subscriptions s' = (subscriptions s)(sid := ?sub\<lparr>status := Canceled\<rparr>)"
    then show ?thesis
      by (rule period_invariant_update [OF assms(1) p]) (use pl lt le in simp_all)
  next
    assume "subscriptions s' = (subscriptions s)(sid := ?sub\<lparr>status := Expired\<rparr>)"
    then show ?thesis
      by (rule period_invariant_update [OF assms(1) p]) (use pl lt le in simp_all)
  next
    assume "subscriptions s' = (subscriptions s)(sid := ?sub
            \<lparr>currentPeriodStart := currentPeriodEnd ?sub,
             currentPeriodEnd := currentPeriodEnd ?sub
                + unat (plan_interval (plans s (sub_planId ?sub))),
             paymentCount := paymentCount ?sub + 1\<rparr>)"
    then show ?thesis
      by (rule period_invariant_update [OF assms(1) p]) (use pl pos due in simp_all)
  qed
qed

lemma period_invariant_batchCharge_item:
  assumes "period_invariant (block_timestamp c) G s"
    and "batchCharge_item E c sid s l = Inr (r, s', l')"
  shows "period_invariant (block_timestamp c) G s'"
  using batchCharge_item_cases [OF assms(2)]
proof (elim disjE conjE)
  assume "s' = s"
  with assms(1) show ?thesis by simp
next
  assume "subscriber (subscriptions s sid) \<noteq> 0"
    and "internal_canCharge E c sid s l = Inr (True, Success)"
    and "internal_chargeSubscription E c sid s l = Inr (r, s', l')"
  then show ?thesis by (rule period_invariant_chargeSubscription [OF assms(1)])
qed

lemma period_invariant_batchCharge_loop:
  assumes "period_invariant (block_timestamp c) G s"
    and "batchCharge_loop E c ids acc s l = Inr (rs, s', l')"
  shows "period_invariant (block_timestamp c) G s'"
  using assms
proof (induction ids arbitrary: acc s l)
  case Nil
  then show ?case by simp
next
  case (Cons a ids)
  from Cons.prems(2) obtain r s1 l1 where
    it: "batchCharge_item E c a s l = Inr (r, s1, l1)"
    and rest: "batchCharge_loop E c ids (acc @ [r]) s1 l1 = Inr (rs, s', l')"
    by (auto split: sum.splits)
  have "period_invariant (block_timestamp c) G s1"
    by (rule period_invariant_batchCharge_item [OF Cons.prems(1) it])
  then show ?case by (rule Cons.IH [OF _ rest])
qed

lemma period_invariant_charge:
  assumes "period_invariant (block_timestamp c) G s" and "charge E c sid s l = Inr (r, s', l')"
  shows "period_invariant (block_timestamp c) G s'"
proof -
  from charge_cases [OF assms(2)] obtain s1 where
    s': "s' = s1\<lparr>guard_status := NOT_ENTERED\<rparr>"
    and ex: "subscriber (subscriptions s sid) \<noteq> 0"
    and d: "(\<exists>e. s1 = s\<lparr>guard_status := ENTERED, events := e\<rparr>) \<or>
            (internal_canCharge E c sid s l = Inr (True, Success) \<and>
             internal_chargeSubscription E c sid (s\<lparr>guard_status := ENTERED\<rparr>) l = Inr (r, s1, l'))"
    by blast
  from d have "period_invariant (block_timestamp c) G s1"
  proof
    assume "\<exists>e. s1 = s\<lparr>guard_status := ENTERED, events := e\<rparr>"
    with assms(1) show ?thesis by auto
  next
    assume a: "internal_canCharge E c sid s l = Inr (True, Success) \<and>
             internal_chargeSubscription E c sid (s\<lparr>guard_status := ENTERED\<rparr>) l = Inr (r, s1, l')"
    show ?thesis
      by (rule period_invariant_chargeSubscription [of c G "s\<lparr>guard_status := ENTERED\<rparr>" sid E l Success r s1 l'])
         (use a ex assms(1) in simp_all)
  qed
  then show ?thesis by (simp add: s')
qed

lemma period_invariant_batchCharge:
  assumes "period_invariant (block_timestamp c) G s"
    and "batchCharge E c ids s l = Inr (rs, s', l')"
  shows "period_invariant (block_timestamp c) G s'"
proof -
  from batchCharge_cases [OF assms(2)] obtain s1 where
    b: "batchCharge_loop E c ids [] (s\<lparr>guard_status := ENTERED\<rparr>) l = Inr (rs, s1, l')"
    and s': "s' = s1\<lparr>guard_status := NOT_ENTERED\<rparr>"
    by blast
  have "period_invariant (block_timestamp c) G s1"
    by (rule period_invariant_batchCharge_loop [OF _ b]) (simp add: assms(1))
  then show ?thesis by (simp add: s')
qed

lemma period_invariant_exec:
  assumes "period_invariant t G s" and "t \<le> block_timestamp c"
    and "exec E c cl s l = Inr (s', l')"
  shows "period_invariant (block_timestamp c) (G \<union> canceled_at_once cl) s'"
proof -
  have inv: "period_invariant (block_timestamp c) (G \<union> canceled_at_once cl) s"
    by (rule period_invariant_later [OF assms(1,2)]) simp
  show ?thesis
  proof (cases cl)
    case (AddSupportedToken token)
    with assms(3) have "with_ledger l (addSupportedToken c token s) = Inr (s', l')" by simp
    then have ok: "addSupportedToken c token s = Inr s'"
      by (rule with_ledger_result)
    show ?thesis by (rule period_invariant_same [OF inv admin_frame(1) [OF ok]])
  next
    case (RemoveSupportedToken token)
    with assms(3) have "with_ledger l (removeSupportedToken c token s) = Inr (s', l')" by simp
    then have ok: "removeSupportedToken c token s = Inr s'"
      by (rule with_ledger_result)
    show ?thesis by (rule period_invariant_same [OF inv admin_frame(2) [OF ok]])
  next
    case (SetPaused b)
    with assms(3) have "with_ledger l (setPaused c b s) = Inr (s', l')" by simp
    then have ok: "setPaused c b s = Inr s'"
      by (rule with_ledger_result)
    show ?thesis by (rule period_invariant_same [OF inv admin_frame(3) [OF ok]])
  next
    case (TransferOwnership newOwner)
    with assms(3) have "with_ledger l (transferOwnership c newOwner s) = Inr (s', l')" by simp
    then have ok: "transferOwnership c newOwner s = Inr s'"
      by (rule with_ledger_result)
    show ?thesis by (rule period_invariant_same [OF inv admin_frame(4) [OF ok]])
  next
    case RenounceOwnership
    with assms(3) have "with_ledger l (renounceOwnership c s) = Inr (s', l')" by simp
    then have ok: "renounceOwnership c s = Inr s'"
      by (rule with_ledger_result)
    show ?thesis by (rule period_invariant_same [OF inv admin_frame(5) [OF ok]])
  next
    case (EmergencyWithdraw token to amount)
    with assms(3) have "s' = s" by (auto split: sum.splits)
    with inv show ?thesis by simp
  next
    case (CreatePlan planId amount token interval m)
    with assms(3) have "with_ledger l (createPlan c planId amount token interval m s) = Inr (s', l')" by simp
    then have "createPlan c planId amount token interval m s = Inr s'"
      by (rule with_ledger_result)
    then show ?thesis by (rule period_invariant_createPlan [OF inv])
  next
    case (UpdatePlan planId active)
    with assms(3) have "with_ledger l (updatePlan c planId active s) = Inr (s', l')" by simp
    then have "updatePlan c planId active s = Inr s'"
      by (rule with_ledger_result)
    then show ?thesis by (rule period_invariant_updatePlan [OF inv])
  next
    case (Subscribe v planId)
    with assms(3) have "drop_result (subscribe E c v planId s l) = Inr (s', l')" by simp
    from drop_result_result [OF this] obtain x where "subscribe E c v planId s l = Inr (x, s', l')"
      by blast
    then show ?thesis by (rule period_invariant_subscribe [OF inv])
  next
    case (SubscribeWithTrial planId trialDays)
    with assms(3) have "drop_result (subscribeWithTrial E c planId trialDays s l) = Inr (s', l')" by simp
    from drop_result_result [OF this] obtain x where "subscribeWithTrial E c planId trialDays s l = Inr (x, s', l')"
      by blast
    then show ?thesis by (rule period_invariant_subscribeWithTrial [OF inv])
  next
    case (CancelSubscription sid imm)
    with assms(3) have "with_ledger l (cancelSubscription c sid imm s) = Inr (s', l')" by simp
    then have "cancelSubscription c sid imm s = Inr s'"
      by (rule with_ledger_result)
    from period_invariant_cancel [OF assms(1,2) this] show ?thesis
      by (simp only: CancelSubscription)
  next
    case (PauseSubscription sid)
    with assms(3) have "with_ledger l (pauseSubscription c sid s) = Inr (s', l')" by simp
    then have "pauseSubscription c sid s = Inr s'"
      by (rule with_ledger_result)
    then show ?thesis by (rule period_invariant_pause [OF inv])
  next
    case (ResumeSubscription sid)
    with assms(3) have "with_ledger l (resumeSubscription c sid s) = Inr (s', l')" by simp
    then have "resumeSubscription c sid s = Inr s'"
      by (rule with_ledger_result)
    then show ?thesis by (rule period_invariant_resume [OF inv])
  next
    case (Charge sid)
    with assms(3) have "drop_result (charge E c sid s l) = Inr (s', l')" by simp
    from drop_result_result [OF this] obtain x where "charge E c sid s l = Inr (x, s', l')"
      by blast
    then show ?thesis by (rule period_invariant_charge [OF inv])
  next
    case (BatchCharge ids)
    with assms(3) have "drop_result (batchCharge E c ids s l) = Inr (s', l')" by simp
    from drop_result_result [OF this] obtain x where "batchCharge E c ids s l = Inr (x, s', l')"
      by blast
    then show ?thesis by (rule period_invariant_batchCharge [OF inv])
  next
    case (Refund v sid amount to)
    with assms(3) have "drop_result (refund E c v sid amount to s l) = Inr (s', l')" by simp
    from drop_result_result [OF this] obtain x where "refund E c v sid amount to s l = Inr (x, s', l')"
      by blast
    from refund_frame [OF this] inv show ?thesis by auto
  next
    case (Pay v orderId amount token merchant)
    with assms(3) have "drop_result (pay E c v orderId amount token merchant s l) = Inr (s', l')" by simp
    from drop_result_result [OF this] obtain x where "pay E c v orderId amount token merchant s l = Inr (x, s', l')"
      by blast
    from pay_frame(1) [OF this] obtain e where
      "s' = s\<lparr>payments := (payments s)(orderId :=
                               \<lparr>pay_orderId = orderId, payer = msg_sender c, pay_merchant = merchant,
                                pay_amount = amount, pay_token = token,
                                pay_timestamp = block_timestamp c, paid = True\<rparr>),
                       events := e, guard_status := NOT_ENTERED\<rparr>"
      by blast
    then have "plans s' = plans s" "subscriptions s' = subscriptions s" by simp_all
    with inv show ?thesis by (simp add: period_invariant_def planExists_def subscriptionExists_def)
  qed
qed

lemma period_invariant_history:
  assumes "history E t G s"
  shows "period_invariant t G s"
  using assms
proof (induction rule: history.induct)
  case (history_init t deployer)
  show ?case by (rule period_invariant_constructor)
next
  case (history_step t G s c cl l s2 l2)
  show ?case
    by (rule period_invariant_exec [OF history_step.IH history_step.hyps(2,3)])
qed

text \<open>
  C5. Take any sequence of calls made from the constructor on, with any senders and
  ledgers and with time stamps that never decrease. In the state it reaches, every
  existing subscription has its current period end at or after its current period
  start, and strictly after it unless the subscription is Canceled and was at some
  point canceled at once: an immediate cancellation sets the period end to the time of
  the call, which may be the very second the period started.
\<close>

theorem C5_period_end_after_start:
  assumes "history E t G s"
    and "subscriptionExists s sid"
  shows "currentPeriodStart (subscriptions s sid) \<le> currentPeriodEnd (subscriptions s sid) \<and>
         (sid \<notin> G \<or> status (subscriptions s sid) \<noteq> Canceled \<longrightarrow>
            currentPeriodStart (subscriptions s sid) < currentPeriodEnd (subscriptions s sid))"
  using period_invariant_history [OF assms(1)] assms(2)
  by (simp add: period_invariant_def)

text \<open>The scenario states, with the times of their calls.\<close>

lemma history_next:
  assumes "history E t G s" and "t \<le> block_timestamp c" and "succeeds (exec E c cl s l)"
  shows "history E (block_timestamp c) (G \<union> canceled_at_once cl) (state_of (exec E c cl s l))"
proof -
  from assms(3) obtain s' l' where r: "exec E c cl s l = Inr (s', l')"
    by (cases "exec E c cl s l") (auto simp: succeeds_def)
  from history_step [OF assms(1,2) r] show ?thesis by (simp add: r state_of_def)
qed

lemma history_at:
  assumes "history E t G s" and "t \<le> time" and "succeeds (exec E (at who time) cl s l)"
  shows "history E time (G \<union> canceled_at_once cl) (state_of (exec E (at who time) cl s l))"
  using history_next [OF assms(1), of "at who time" cl l] assms(2,3) by (simp add: at_def)

lemma history_st_token: "history demo_env 10 {} st_token"
  using history_at [OF history_init [of demo_env 0 1], of 10 1 "AddSupportedToken 5" ledger_empty]
  by (simp add: st_token_def) (simp add: scenario_defs)

lemma history_st_plan11: "history demo_env 100 {} st_plan11"
  using history_at [OF history_st_token, of 100 50 "CreatePlan 11 1000 5 86400 50" ledger_empty]
  by (simp add: st_plan11_def) (simp add: scenario_defs)

lemma history_st_plans: "history demo_env 100 {} st_plans"
  using history_at [OF history_st_plan11, of 100 50 "CreatePlan 12 1000 0 86400 50" ledger_empty]
  by (simp add: st_plans_def) (simp add: scenario_defs)

lemma history_st_sub11: "history demo_env 1000 {} st_sub11"
  using history_at [OF history_st_plans, of 1000 7 "Subscribe 0 11" ledger_funded]
  by (simp add: st_sub11_def) (simp add: scenario_defs)

lemma history_st_canceled: "history demo_env 1000 {1001} st_canceled"
  using history_at [OF history_st_sub11, of 1000 7 "CancelSubscription 1001 True" ledger_funded]
  by (simp add: st_canceled_def) (simp add: scenario_defs st_sub11_def)

text \<open>Subscription 1001 after subscribing to plan 11 at time 1000: the period is 1000 to 87400.\<close>

theorem C5_period_end_after_start_witness:
  "history demo_env 1000 {} st_sub11 \<and> subscriptionExists st_sub11 1001 \<and>
   currentPeriodStart (subscriptions st_sub11 1001) \<le> currentPeriodEnd (subscriptions st_sub11 1001) \<and>
   status (subscriptions st_sub11 1001) = Active \<and>
   currentPeriodStart (subscriptions st_sub11 1001) < currentPeriodEnd (subscriptions st_sub11 1001)"
proof -
  have h: "subscriptionExists st_sub11 1001"
    by (simp add: scenario_defs st_sub11_def)
  have a: "status (subscriptions st_sub11 1001) = Active"
    by (simp add: scenario_defs st_sub11_def)
  show ?thesis
    using C5_period_end_after_start [OF history_st_sub11 h] history_st_sub11 h a by simp
qed

text \<open>
  Subscriber 7 subscribes at time 1000 and cancels at once in the same second: the
  subscription exists and its period end equals its period start.
\<close>

theorem C5_immediate_cancel_counterexample:
  "history demo_env 1000 {1001} st_canceled \<and> subscriptionExists st_canceled 1001 \<and>
   currentPeriodStart (subscriptions st_canceled 1001) = 1000 \<and>
   currentPeriodEnd (subscriptions st_canceled 1001) = 1000 \<and>
   \<not> currentPeriodStart (subscriptions st_canceled 1001) < currentPeriodEnd (subscriptions st_canceled 1001)"
  using history_st_canceled
  by (simp add: scenario_defs st_canceled_def st_sub11_def)

section \<open>One-time payments\<close>

text \<open>
  No call other than a first \<open>pay\<close> writes a one-time payment: once an order has a
  payer, its record stays as it is, and the reentrancy guard is back to "not entered"
  after every call.
\<close>

lemma subscribe_payments:
  assumes "subscribe E c v planId s l = Inr (x, s', l')"
  shows "payments s' = payments s \<and> guard_status s' = NOT_ENTERED"
proof -
  from subscribe_result [OF assms] obtain s1 where
    isub: "internal_subscribe E c v planId 0 (s\<lparr>guard_status := ENTERED\<rparr>) l = Inr (x, s1, l')"
    and s': "s' = s1\<lparr>guard_status := NOT_ENTERED\<rparr>"
    by auto
  from internal_subscribe_result [OF isub] show ?thesis by (simp add: s')
qed

lemma subscribeWithTrial_payments:
  assumes "subscribeWithTrial E c planId trialDays s l = Inr (x, s', l')"
  shows "payments s' = payments s \<and> guard_status s' = NOT_ENTERED"
proof -
  from subscribeWithTrial_result [OF assms] obtain s1 where
    isub: "internal_subscribe E c 0 planId trialDays (s\<lparr>guard_status := ENTERED\<rparr>) l = Inr (x, s1, l')"
    and s': "s' = s1\<lparr>guard_status := NOT_ENTERED\<rparr>"
    by auto
  from internal_subscribe_result [OF isub] show ?thesis by (simp add: s')
qed

lemma charge_payments:
  assumes "charge E c sid s l = Inr (x, s', l')"
  shows "payments s' = payments s \<and> guard_status s' = NOT_ENTERED"
proof -
  from charge_cases [OF assms] obtain s1 where
    s': "s' = s1\<lparr>guard_status := NOT_ENTERED\<rparr>"
    and d: "(\<exists>e. s1 = s\<lparr>guard_status := ENTERED, events := e\<rparr>) \<or>
            internal_chargeSubscription E c sid (s\<lparr>guard_status := ENTERED\<rparr>) l = Inr (x, s1, l')"
    by blast
  from d have "payments s1 = payments s"
  proof
    assume "\<exists>e. s1 = s\<lparr>guard_status := ENTERED, events := e\<rparr>"
    then show ?thesis by auto
  next
    assume "internal_chargeSubscription E c sid (s\<lparr>guard_status := ENTERED\<rparr>) l = Inr (x, s1, l')"
    from chargeSubscription_frame(2) [OF this] show ?thesis by simp
  qed
  then show ?thesis by (simp add: s')
qed

lemma batchCharge_payments:
  assumes "batchCharge E c ids s l = Inr (x, s', l')"
  shows "payments s' = payments s \<and> guard_status s' = NOT_ENTERED"
proof -
  from batchCharge_cases [OF assms] obtain s1 where
    b: "batchCharge_loop E c ids [] (s\<lparr>guard_status := ENTERED\<rparr>) l = Inr (x, s1, l')"
    and s': "s' = s1\<lparr>guard_status := NOT_ENTERED\<rparr>"
    by blast
  from payments_batchCharge_loop [OF b] show ?thesis by (simp add: s')
qed

lemma exec_payment_kept:
  assumes "exec E c cl s l = Inr (s', l')"
    and "payer (payments s oid) \<noteq> 0"
    and "guard_status s = NOT_ENTERED"
  shows "payments s' oid = payments s oid \<and> guard_status s' = NOT_ENTERED"
proof (cases cl)
  case (AddSupportedToken token)
  with assms(1) have "with_ledger l (addSupportedToken c token s) = Inr (s', l')" by simp
  then have ok: "addSupportedToken c token s = Inr s'" by (rule with_ledger_result)
  show ?thesis using admin_frame(1) [OF ok] plain_calls_guard(1) [OF ok] assms(3) by simp
next
  case (RemoveSupportedToken token)
  with assms(1) have "with_ledger l (removeSupportedToken c token s) = Inr (s', l')" by simp
  then have ok: "removeSupportedToken c token s = Inr s'" by (rule with_ledger_result)
  show ?thesis using admin_frame(2) [OF ok] plain_calls_guard(2) [OF ok] assms(3) by simp
next
  case (SetPaused b)
  with assms(1) have "with_ledger l (setPaused c b s) = Inr (s', l')" by simp
  then have ok: "setPaused c b s = Inr s'" by (rule with_ledger_result)
  show ?thesis using admin_frame(3) [OF ok] plain_calls_guard(3) [OF ok] assms(3) by simp
next
  case (TransferOwnership newOwner)
  with assms(1) have "with_ledger l (transferOwnership c newOwner s) = Inr (s', l')" by simp
  then have ok: "transferOwnership c newOwner s = Inr s'" by (rule with_ledger_result)
  show ?thesis using admin_frame(4) [OF ok] plain_calls_guard(4) [OF ok] assms(3) by simp
next
  case RenounceOwnership
  with assms(1) have "with_ledger l (renounceOwnership c s) = Inr (s', l')" by simp
  then have ok: "renounceOwnership c s = Inr s'" by (rule with_ledger_result)
  show ?thesis using admin_frame(5) [OF ok] plain_calls_guard(5) [OF ok] assms(3) by simp
next
  case (EmergencyWithdraw token to amount)
  with assms(1) have "s' = s" by (auto split: sum.splits)
  with assms(3) show ?thesis by simp
next
  case (CreatePlan planId amount token interval m)
  with assms(1) have "with_ledger l (createPlan c planId amount token interval m s) = Inr (s', l')"
    by simp
  then have ok: "createPlan c planId amount token interval m s = Inr s'" by (rule with_ledger_result)
  show ?thesis using lifecycle_payments(1) [OF ok] plain_calls_guard(6) [OF ok] assms(3) by simp
next
  case (UpdatePlan planId active)
  with assms(1) have "with_ledger l (updatePlan c planId active s) = Inr (s', l')" by simp
  then have ok: "updatePlan c planId active s = Inr s'" by (rule with_ledger_result)
  show ?thesis using lifecycle_payments(2) [OF ok] plain_calls_guard(7) [OF ok] assms(3) by simp
next
  case (Subscribe v planId)
  with assms(1) have "drop_result (subscribe E c v planId s l) = Inr (s', l')" by simp
  from drop_result_result [OF this] obtain x where "subscribe E c v planId s l = Inr (x, s', l')"
    by blast
  from subscribe_payments [OF this] show ?thesis by simp
next
  case (SubscribeWithTrial planId trialDays)
  with assms(1) have "drop_result (subscribeWithTrial E c planId trialDays s l) = Inr (s', l')" by simp
  from drop_result_result [OF this] obtain x where
    "subscribeWithTrial E c planId trialDays s l = Inr (x, s', l')"
    by blast
  from subscribeWithTrial_payments [OF this] show ?thesis by simp
next
  case (CancelSubscription sid imm)
  with assms(1) have "with_ledger l (cancelSubscription c sid imm s) = Inr (s', l')" by simp
  then have ok: "cancelSubscription c sid imm s = Inr s'" by (rule with_ledger_result)
  show ?thesis using lifecycle_payments(3) [OF ok] plain_calls_guard(8) [OF ok] assms(3) by simp
next
  case (PauseSubscription sid)
  with assms(1) have "with_ledger l (pauseSubscription c sid s) = Inr (s', l')" by simp
  then have ok: "pauseSubscription c sid s = Inr s'" by (rule with_ledger_result)
  show ?thesis using lifecycle_payments(4) [OF ok] plain_calls_guard(9) [OF ok] assms(3) by simp
next
  case (ResumeSubscription sid)
  with assms(1) have "with_ledger l (resumeSubscription c sid s) = Inr (s', l')" by simp
  then have ok: "resumeSubscription c sid s = Inr s'" by (rule with_ledger_result)
  show ?thesis using lifecycle_payments(5) [OF ok] plain_calls_guard(10) [OF ok] assms(3) by simp
next
  case (Charge sid)
  with assms(1) have "drop_result (charge E c sid s l) = Inr (s', l')" by simp
  from drop_result_result [OF this] obtain x where "charge E c sid s l = Inr (x, s', l')"
    by blast
  from charge_payments [OF this] show ?thesis by simp
next
  case (BatchCharge ids)
  with assms(1) have "drop_result (batchCharge E c ids s l) = Inr (s', l')" by simp
  from drop_result_result [OF this] obtain x where "batchCharge E c ids s l = Inr (x, s', l')"
    by blast
  from batchCharge_payments [OF this] show ?thesis by simp
next
  case (Refund v sid amount to)
  with assms(1) have "drop_result (refund E c v sid amount to s l) = Inr (s', l')" by simp
  from drop_result_result [OF this] obtain x where "refund E c v sid amount to s l = Inr (x, s', l')"
    by blast
  from refund_frame [OF this] show ?thesis by auto
next
  case (Pay v orderId amount token merchant)
  with assms(1) have "drop_result (pay E c v orderId amount token merchant s l) = Inr (s', l')"
    by simp
  from drop_result_result [OF this] obtain x where
    p: "pay E c v orderId amount token merchant s l = Inr (x, s', l')"
    by blast
  from pay_frame(2) [OF p] assms(2) have ne: "orderId \<noteq> oid" by auto
  from pay_frame(1) [OF p] ne show ?thesis by auto
qed

lemma reaches_payment_kept:
  assumes "reaches E s s'"
    and "payer (payments s oid) \<noteq> 0"
    and "guard_status s = NOT_ENTERED"
  shows "payments s' oid = payments s oid \<and> guard_status s' = NOT_ENTERED"
  using assms
proof (induction rule: reaches.induct)
  case (reaches_refl s)
  then show ?case by simp
next
  case (reaches_step s s1 c cl l s2 l2)
  from reaches_step.IH [OF reaches_step.prems]
  have a: "payments s1 oid = payments s oid" and g: "guard_status s1 = NOT_ENTERED" by simp_all
  from a reaches_step.prems(1) have "payer (payments s1 oid) \<noteq> 0" by simp
  from exec_payment_kept [OF reaches_step.hyps(2) this g] a show ?case by simp
qed

text \<open>
  C8. After a successful \<open>pay\<close> for an order identifier (by a sender other than the
  zero address), \<open>getPayment\<close> shows that payment as paid; a second \<open>pay\<close> with the same
  identifier, by anyone, with any arguments and on any ledger, reverts with "Order
  already paid" before the ledger is consulted, so nothing is transferred and nothing
  changes. The same holds in every state reached later by any sequence of calls: the
  record of the first payment is unchanged and \<open>pay\<close> for that identifier reverts
  (with the pause message when the contract is paused).
\<close>

theorem C8_pay_once:
  assumes "pay E c v orderId amount token merchant s l = Inr (r, s1, l1)"
    and "msg_sender c \<noteq> 0"
    and "reaches E s1 s2"
  shows "getPayment s1 orderId = (True, msg_sender c, merchant, amount, token, block_timestamp c) \<and>
         pay E2 c2 v2 orderId amount2 token2 merchant2 s1 l2 = Inl (Revert ''Order already paid'') \<and>
         getPayment s2 orderId = (True, msg_sender c, merchant, amount, token, block_timestamp c) \<and>
         pay E2 c2 v2 orderId amount2 token2 merchant2 s2 l2 =
           Inl (Revert (if contract_paused s2 then ''Pausable: paused'' else ''Order already paid''))"
proof -
  from pay_frame(1) [OF assms(1)] obtain e where
    s1: "s1 = s\<lparr>payments := (payments s)(orderId :=
                             \<lparr>pay_orderId = orderId, payer = msg_sender c, pay_merchant = merchant,
                              pay_amount = amount, pay_token = token,
                              pay_timestamp = block_timestamp c, paid = True\<rparr>),
                     events := e, guard_status := NOT_ENTERED\<rparr>"
    by blast
  have np: "\<not> contract_paused s1" using pay_frame(3) [OF assms(1)] by (simp add: s1)
  have p1: "payments s1 orderId = \<lparr>pay_orderId = orderId, payer = msg_sender c, pay_merchant = merchant,
                              pay_amount = amount, pay_token = token,
                              pay_timestamp = block_timestamp c, paid = True\<rparr>"
    by (simp add: s1)
  have g1: "guard_status s1 = NOT_ENTERED" by (simp add: s1)
  have py: "payer (payments s1 orderId) \<noteq> 0" using assms(2) by (simp add: p1)
  from reaches_payment_kept [OF assms(3) py g1]
  have p2: "payments s2 orderId = payments s1 orderId" and g2: "guard_status s2 = NOT_ENTERED"
    by simp_all
  have again: "\<And>t. payer (payments t orderId) \<noteq> 0 \<Longrightarrow> guard_status t = NOT_ENTERED \<Longrightarrow>
      pay E2 c2 v2 orderId amount2 token2 merchant2 t l2 =
        Inl (Revert (if contract_paused t then ''Pausable: paused'' else ''Order already paid''))"
    by (simp add: pay_def nonReentrant_def NOT_ENTERED_def ENTERED_def)
  have a1: "pay E2 c2 v2 orderId amount2 token2 merchant2 s1 l2 = Inl (Revert ''Order already paid'')"
    using again [OF py g1] np by simp
  have a2: "pay E2 c2 v2 orderId amount2 token2 merchant2 s2 l2 =
           Inl (Revert (if contract_paused s2 then ''Pausable: paused'' else ''Order already paid''))"
    using again [of s2] py g2 by (simp add: p2)
  show ?thesis
    using a1 a2 by (simp add: getPayment_def p2 p1)
qed

text \<open>
  Subscriber 7 pays 500 of token 5 to merchant 50 for order 1 at time 1000 and tries
  again one second later.
\<close>

theorem C8_pay_once_witness:
  "pay demo_env (at 7 1000) 0 1 500 5 50 st_plans ledger_funded =
     Inr ((), storage_after (pay demo_env (at 7 1000) 0 1 500 5 50 st_plans ledger_funded),
          ledger_after (pay demo_env (at 7 1000) 0 1 500 5 50 st_plans ledger_funded)) \<and>
   msg_sender (at 7 1000) \<noteq> 0 \<and>
   getPayment (storage_after (pay demo_env (at 7 1000) 0 1 500 5 50 st_plans ledger_funded)) 1
     = (True, 7, 50, 500, 5, 1000) \<and>
   pay demo_env (at 7 1001) 0 1 500 5 50
       (storage_after (pay demo_env (at 7 1000) 0 1 500 5 50 st_plans ledger_funded))
       (ledger_after (pay demo_env (at 7 1000) 0 1 500 5 50 st_plans ledger_funded))
     = Inl (Revert ''Order already paid'')"
proof -
  let ?r = "pay demo_env (at 7 1000) 0 1 500 5 50 st_plans ledger_funded"
  have "succeeds ?r" by (simp add: scenario_defs)
  then have eq: "?r = Inr (returned ?r, storage_after ?r, ledger_after ?r)" by (rule succeeds_result)
  have ns: "msg_sender (at 7 1000) \<noteq> 0" by (simp add: at_def)
  show ?thesis
    using C8_pay_once [OF eq ns reaches_refl, of demo_env "at 7 1001" 0 500 5 50 "ledger_after ?r"] eq ns
    by (simp add: at_def)
qed

section \<open>Batch charging\<close>

text \<open>
  The reentrancy guard is invisible to the charge engine, so a batch called outside a
  reentrant call is its loop, and the loop is its first item followed by the loop over
  the rest.
\<close>

lemma guard_same:
  assumes "guard_status s = g"
  shows "s\<lparr>guard_status := g\<rparr> = s"
  using assms by (cases s) simp

lemma chargeSubscription_guard:
  "internal_chargeSubscription E c x (s\<lparr>guard_status := g\<rparr>) l =
     (case internal_chargeSubscription E c x s l of
        Inl e \<Rightarrow> Inl e
      | Inr (r, s', l') \<Rightarrow> Inr (r, s'\<lparr>guard_status := g\<rparr>, l'))"
  by (simp add: internal_chargeSubscription_def Let_def split: sum.splits prod.splits)

lemma batchCharge_item_guard:
  "batchCharge_item E c x (s\<lparr>guard_status := g\<rparr>) l =
     (case batchCharge_item E c x s l of
        Inl e \<Rightarrow> Inl e
      | Inr (r, s', l') \<Rightarrow> Inr (r, s'\<lparr>guard_status := g\<rparr>, l'))"
  by (simp add: batchCharge_item_def chargeSubscription_guard split: sum.splits prod.splits)

lemma batchCharge_loop_guard:
  "batchCharge_loop E c ids acc (s\<lparr>guard_status := g\<rparr>) l =
     (case batchCharge_loop E c ids acc s l of
        Inl e \<Rightarrow> Inl e
      | Inr (rs, s', l') \<Rightarrow> Inr (rs, s'\<lparr>guard_status := g\<rparr>, l'))"
proof (induction ids arbitrary: acc s l)
  case Nil
  show ?case by simp
next
  case (Cons a ids)
  show ?case
  proof (cases "batchCharge_item E c a s l")
    case (Inl e)
    then show ?thesis by (simp add: batchCharge_item_guard)
  next
    case (Inr t)
    obtain r s1 l1 where t: "t = (r, s1, l1)" by (cases t)
    show ?thesis using Inr t Cons.IH [of "acc @ [r]" s1 l1] by (simp add: batchCharge_item_guard)
  qed
qed

lemma batchCharge_loop_acc:
  "batchCharge_loop E c ids acc s l =
     (case batchCharge_loop E c ids [] s l of
        Inl e \<Rightarrow> Inl e
      | Inr (rs, s', l') \<Rightarrow> Inr (acc @ rs, s', l'))"
proof (induction ids arbitrary: acc s l)
  case Nil
  show ?case by simp
next
  case (Cons a ids)
  show ?case
  proof (cases "batchCharge_item E c a s l")
    case (Inl e)
    then show ?thesis by simp
  next
    case (Inr t)
    obtain r s1 l1 where t: "t = (r, s1, l1)" by (cases t)
    have a: "batchCharge_loop E c ids (acc @ [r]) s1 l1 =
       (case batchCharge_loop E c ids [] s1 l1 of
          Inl e \<Rightarrow> Inl e
        | Inr (rs, s', l') \<Rightarrow> Inr ((acc @ [r]) @ rs, s', l'))"
      by (rule Cons.IH)
    have b: "batchCharge_loop E c ids [r] s1 l1 =
       (case batchCharge_loop E c ids [] s1 l1 of
          Inl e \<Rightarrow> Inl e
        | Inr (rs, s', l') \<Rightarrow> Inr ([r] @ rs, s', l'))"
      by (rule Cons.IH)
    show ?thesis using Inr t by (simp add: a b split: sum.splits)
  qed
qed

lemma batchCharge_loop_Cons:
  "batchCharge_loop E c (x # ids) [] s l =
     (case batchCharge_item E c x s l of
        Inl e \<Rightarrow> Inl e
      | Inr (r, s1, l1) \<Rightarrow> prepend r (batchCharge_loop E c ids [] s1 l1))"
proof (cases "batchCharge_item E c x s l")
  case (Inl e)
  then show ?thesis by simp
next
  case (Inr t)
  obtain r s1 l1 where t: "t = (r, s1, l1)" by (cases t)
  show ?thesis
    using Inr t batchCharge_loop_acc [of E c ids "[r]" s1 l1]
    by (simp add: prepend_def split: sum.splits)
qed

lemma plans_batchCharge_loop:
  assumes "batchCharge_loop E c ids acc s l = Inr (rs, s', l')"
  shows "plans s' = plans s"
  using assms
proof (induction ids arbitrary: acc s l)
  case Nil
  then show ?case by simp
next
  case (Cons a ids)
  from Cons.prems obtain r s1 l1 where
    it: "batchCharge_item E c a s l = Inr (r, s1, l1)"
    and rest: "batchCharge_loop E c ids (acc @ [r]) s1 l1 = Inr (rs, s', l')"
    by (auto split: sum.splits)
  show ?case
    using Cons.IH [OF rest] batchCharge_item_frame(1) [OF it] by simp
qed

lemma batchCharge_plain:
  assumes "guard_status s = NOT_ENTERED" and "length ids \<le> MAX_BATCH_SIZE"
  shows "batchCharge E c ids s l = batchCharge_loop E c ids [] s l"
proof (cases "batchCharge_loop E c ids [] s l")
  case (Inl e)
  with assms show ?thesis
    by (simp add: batchCharge_def nonReentrant_def batchCharge_loop_guard NOT_ENTERED_def ENTERED_def)
next
  case (Inr t)
  obtain rs s' l' where t: "t = (rs, s', l')" by (cases t)
  from Inr t have lp: "batchCharge_loop E c ids [] s l = Inr (rs, s', l')" by simp
  from payments_batchCharge_loop [OF lp] assms(1) have "guard_status s' = NOT_ENTERED" by simp
  then have "s'\<lparr>guard_status := NOT_ENTERED\<rparr> = s'" by (rule guard_same)
  with assms lp show ?thesis
    by (simp add: batchCharge_def nonReentrant_def batchCharge_loop_guard NOT_ENTERED_def ENTERED_def)
qed

lemma charge_plain:
  assumes "guard_status s = NOT_ENTERED" and "subscriptionExists s x"
    and "internal_canCharge E c x s l = Inr (True, fr)"
  shows "charge E c x s l = internal_chargeSubscription E c x s l"
proof (cases "internal_chargeSubscription E c x s l")
  case (Inl e)
  with assms show ?thesis
    by (simp add: charge_def nonReentrant_def chargeSubscription_guard subscriptionExists_def
        NOT_ENTERED_def ENTERED_def)
next
  case (Inr t)
  obtain r s' l' where t: "t = (r, s', l')" by (cases t)
  from Inr t have cs: "internal_chargeSubscription E c x s l = Inr (r, s', l')" by simp
  from chargeSubscription_frame(3) [OF cs] assms(1) have "guard_status s' = NOT_ENTERED" by simp
  then have "s'\<lparr>guard_status := NOT_ENTERED\<rparr> = s'" by (rule guard_same)
  with assms cs show ?thesis
    by (simp add: charge_def nonReentrant_def chargeSubscription_guard subscriptionExists_def
        NOT_ENTERED_def ENTERED_def)
qed

lemma batchCharge_too_large:
  assumes "guard_status s \<noteq> ENTERED" and "MAX_BATCH_SIZE < length ids"
  shows "batchCharge E c ids s l = Inl (Revert ''Batch too large'')"
  using assms by (simp add: batchCharge_def nonReentrant_def)

lemma batchCharge_Nil:
  assumes "guard_status s = NOT_ENTERED"
  shows "batchCharge E c [] s l = Inr ([], s, l)"
  using batchCharge_plain [OF assms, of "[]" E c l] by (simp add: MAX_BATCH_SIZE_def)

lemma batchCharge_Cons:
  assumes "guard_status s = NOT_ENTERED" and "length (x # ids) \<le> MAX_BATCH_SIZE"
  shows "batchCharge E c (x # ids) s l =
     (if \<not> subscriptionExists s x then prepend False (batchCharge E c ids s l)
      else
        case canCharge E c x s l of
          Inl e \<Rightarrow> Inl e
        | Inr (ok, reason) \<Rightarrow>
            if \<not> ok then prepend False (batchCharge E c ids s l)
            else
              (case charge E c x s l of
                 Inl e \<Rightarrow> Inl e
               | Inr (r, s1, l1) \<Rightarrow> prepend r (batchCharge E c ids s1 l1)))"
proof -
  from assms(2) have len: "length ids \<le> MAX_BATCH_SIZE" by simp
  have whole: "batchCharge E c (x # ids) s l =
     (case batchCharge_item E c x s l of
        Inl e \<Rightarrow> Inl e
      | Inr (r, s1, l1) \<Rightarrow> prepend r (batchCharge_loop E c ids [] s1 l1))"
    by (simp only: batchCharge_plain [OF assms] batchCharge_loop_Cons)
  have rest: "batchCharge E c ids s l = batchCharge_loop E c ids [] s l"
    by (rule batchCharge_plain [OF assms(1) len])
  show ?thesis
  proof (cases "subscriptionExists s x")
    case False
    then show ?thesis
      by (simp add: whole rest batchCharge_item_def subscriptionExists_def)
  next
    case True
    then have ex: "subscriber (subscriptions s x) \<noteq> 0" by (simp add: subscriptionExists_def)
    show ?thesis
    proof (cases "internal_canCharge E c x s l")
      case (Inl e)
      with True ex show ?thesis
        by (simp add: whole batchCharge_item_def canCharge_def)
    next
      case (Inr p)
      obtain ok fr where p: "p = (ok, fr)" by (cases p)
      show ?thesis
      proof (cases ok)
        case False
        with True ex Inr p show ?thesis
          by (simp add: whole rest batchCharge_item_def canCharge_def)
      next
        case ok: True
        with Inr p have cc: "internal_canCharge E c x s l = Inr (True, fr)" by simp
        have ch: "charge E c x s l = internal_chargeSubscription E c x s l"
          by (rule charge_plain [OF assms(1) True cc])
        have it: "batchCharge_item E c x s l = internal_chargeSubscription E c x s l"
          using ex cc by (simp add: batchCharge_item_def)
        show ?thesis
        proof (cases "internal_chargeSubscription E c x s l")
          case (Inl e)
          with True cc show ?thesis by (simp add: whole it ch canCharge_def)
        next
          case (Inr t)
          obtain r s1 l1 where t: "t = (r, s1, l1)" by (cases t)
          from Inr t have cs: "internal_chargeSubscription E c x s l = Inr (r, s1, l1)" by simp
          from chargeSubscription_frame(3) [OF cs] assms(1) have g1: "guard_status s1 = NOT_ENTERED"
            by simp
          have "batchCharge E c ids s1 l1 = batchCharge_loop E c ids [] s1 l1"
            by (rule batchCharge_plain [OF g1 len])
          with True cc cs show ?thesis by (simp add: whole it ch canCharge_def)
        qed
      qed
    qed
  qed
qed

text \<open>What one item and the whole loop change.\<close>

lemma chargeSubscription_effect:
  assumes "internal_chargeSubscription E c x s l = Inr (r, s1, l1)"
  shows "paymentCount (subscriptions s1 y) =
           paymentCount (subscriptions s y) + (if x = y \<and> r then 1 else 0)"
    and "length (subscriptionPayments s1 y) =
           length (subscriptionPayments s y) + (if x = y \<and> r then 1 else 0)"
  using chargeSubscription_cases [OF assms] by (cases "x = y"; auto)+

lemma batchCharge_item_effect:
  assumes "batchCharge_item E c x s l = Inr (r, s1, l1)"
  shows "paymentCount (subscriptions s1 y) =
           paymentCount (subscriptions s y) + (if x = y \<and> r then 1 else 0)"
    and "length (subscriptionPayments s1 y) =
           length (subscriptionPayments s y) + (if x = y \<and> r then 1 else 0)"
    and "subscriber (subscriptions s1 y) = subscriber (subscriptions s y)"
    and "subscriber (subscriptions s x) = 0 \<Longrightarrow> \<not> r"
proof -
  from batchCharge_item_cases [OF assms]
  have d: "(r = False \<and> s1 = s \<and> l1 = l) \<or>
           (subscriber (subscriptions s x) \<noteq> 0 \<and>
            internal_chargeSubscription E c x s l = Inr (r, s1, l1))"
    by blast
  from d show "paymentCount (subscriptions s1 y) =
           paymentCount (subscriptions s y) + (if x = y \<and> r then 1 else 0)"
  proof
    assume "r = False \<and> s1 = s \<and> l1 = l"
    then show ?thesis by simp
  next
    assume "subscriber (subscriptions s x) \<noteq> 0 \<and>
            internal_chargeSubscription E c x s l = Inr (r, s1, l1)"
    then have "internal_chargeSubscription E c x s l = Inr (r, s1, l1)" ..
    then show ?thesis by (rule chargeSubscription_effect(1))
  qed
  from d show "length (subscriptionPayments s1 y) =
           length (subscriptionPayments s y) + (if x = y \<and> r then 1 else 0)"
  proof
    assume "r = False \<and> s1 = s \<and> l1 = l"
    then show ?thesis by simp
  next
    assume "subscriber (subscriptions s x) \<noteq> 0 \<and>
            internal_chargeSubscription E c x s l = Inr (r, s1, l1)"
    then have "internal_chargeSubscription E c x s l = Inr (r, s1, l1)" ..
    then show ?thesis by (rule chargeSubscription_effect(2))
  qed
  show "subscriber (subscriptions s1 y) = subscriber (subscriptions s y)"
    using batchCharge_item_frame(5) [OF assms, of y] batchCharge_item_frame(6) [OF assms]
    by (cases "y = x") auto
  from d show "subscriber (subscriptions s x) = 0 \<Longrightarrow> \<not> r" by auto
qed

lemma charged_Nil [simp]: "charged [] [] y = 0"
  by (simp add: charged_def)

lemma charged_Cons [simp]:
  "charged (x # ids) (r # rs) y = (if x = y \<and> r then 1 else 0) + charged ids rs y"
  by (simp add: charged_def)

lemma batchCharge_loop_split:
  assumes "batchCharge_loop E c (x # ids) [] s l = Inr (rs, s', l')"
  shows "\<exists>r s1 l1 rs1. batchCharge_item E c x s l = Inr (r, s1, l1) \<and>
           batchCharge_loop E c ids [] s1 l1 = Inr (rs1, s', l') \<and> rs = r # rs1"
proof (cases "batchCharge_item E c x s l")
  case (Inl e)
  with assms show ?thesis by simp
next
  case (Inr t)
  obtain r s1 l1 where t: "t = (r, s1, l1)" by (cases t)
  from assms Inr t have "prepend r (batchCharge_loop E c ids [] s1 l1) = Inr (rs, s', l')"
    by (simp only: batchCharge_loop_Cons) simp
  then have "\<exists>rs1. batchCharge_loop E c ids [] s1 l1 = Inr (rs1, s', l') \<and> rs = r # rs1"
    by (auto simp: prepend_def split: sum.splits)
  with Inr t show ?thesis by simp
qed

lemma batchCharge_loop_effect:
  assumes "batchCharge_loop E c ids [] s l = Inr (rs, s', l')"
  shows "length rs = length ids \<and>
         (\<forall>k<length ids. subscriber (subscriptions s (ids ! k)) = 0 \<longrightarrow> \<not> rs ! k) \<and>
         (\<forall>y. paymentCount (subscriptions s' y) = paymentCount (subscriptions s y) + charged ids rs y \<and>
              length (subscriptionPayments s' y) = length (subscriptionPayments s y) + charged ids rs y \<and>
              subscriber (subscriptions s' y) = subscriber (subscriptions s y)) \<and>
         (\<forall>y. y \<notin> set ids \<longrightarrow> subscriptions s' y = subscriptions s y)"
  using assms
proof (induction ids arbitrary: rs s l)
  case Nil
  then show ?case by simp
next
  case (Cons x ids)
  from batchCharge_loop_split [OF Cons.prems] obtain r s1 l1 rs1 where
    it: "batchCharge_item E c x s l = Inr (r, s1, l1)"
    and rest: "batchCharge_loop E c ids [] s1 l1 = Inr (rs1, s', l')"
    and rs: "rs = r # rs1"
    by blast
  note ih = Cons.IH [OF rest]
  note ef = batchCharge_item_effect [OF it]
  have len: "length rs = length (x # ids)" using ih rs by simp
  have unk: "\<forall>k<length (x # ids). subscriber (subscriptions s ((x # ids) ! k)) = 0 \<longrightarrow> \<not> rs ! k"
  proof (intro allI impI)
    fix k assume k: "k < length (x # ids)"
      and z: "subscriber (subscriptions s ((x # ids) ! k)) = 0"
    show "\<not> rs ! k"
    proof (cases k)
      case 0
      with z ef(4) rs show ?thesis by simp
    next
      case (Suc j)
      with k have j: "j < length ids" by simp
      from z Suc have "subscriber (subscriptions s1 (ids ! j)) = 0" by (simp add: ef(3))
      with ih j have "\<not> rs1 ! j" by blast
      with rs Suc show ?thesis by simp
    qed
  qed
  have cnt: "\<forall>y. paymentCount (subscriptions s' y) = paymentCount (subscriptions s y) + charged (x # ids) rs y \<and>
              length (subscriptionPayments s' y) = length (subscriptionPayments s y) + charged (x # ids) rs y \<and>
              subscriber (subscriptions s' y) = subscriber (subscriptions s y)"
  proof
    fix y
    from ih have a: "paymentCount (subscriptions s' y) = paymentCount (subscriptions s1 y) + charged ids rs1 y"
      and b: "length (subscriptionPayments s' y) = length (subscriptionPayments s1 y) + charged ids rs1 y"
      and d: "subscriber (subscriptions s' y) = subscriber (subscriptions s1 y)"
      by simp_all
    show "paymentCount (subscriptions s' y) = paymentCount (subscriptions s y) + charged (x # ids) rs y \<and>
              length (subscriptionPayments s' y) = length (subscriptionPayments s y) + charged (x # ids) rs y \<and>
              subscriber (subscriptions s' y) = subscriber (subscriptions s y)"
      using a b d ef(1) [of y] ef(2) [of y] ef(3) [of y] by (simp add: rs)
  qed
  have fr: "\<forall>y. y \<notin> set (x # ids) \<longrightarrow> subscriptions s' y = subscriptions s y"
  proof (intro allI impI)
    fix y assume y: "y \<notin> set (x # ids)"
    then have "y \<noteq> x" and "y \<notin> set ids" by simp_all
    with ih batchCharge_item_frame(5) [OF it, of y] show "subscriptions s' y = subscriptions s y"
      by simp
  qed
  from len unk cnt fr show ?case by blast
qed

text \<open>A batch returns when the ledger answers and no addition overflows.\<close>

lemma canCharge_returns:
  assumes "answers E P" and "P l"
  shows "\<exists>ok fr. internal_canCharge E c x s l = Inr (ok, fr)"
proof -
  let ?plan = "plans s (sub_planId (subscriptions s x))"
  let ?who = "subscriber (subscriptions s x)"
  from assms have "has_value (balanceOf E l (plan_token ?plan) ?who)"
    and "has_value (allowance E l (plan_token ?plan) ?who (this E))"
    by (simp_all add: answers_def)
  then obtain b a where "balanceOf E l (plan_token ?plan) ?who = Returned b"
    and "allowance E l (plan_token ?plan) ?who (this E) = Returned a"
    by (auto simp: has_value_def split: reply.splits)
  then show ?thesis by (auto simp: internal_canCharge_def Let_def)
qed

lemma executePaymentFrom_returns:
  assumes "answers E P" and "P l"
  shows "\<exists>ok l'. internal_executePaymentFrom E plan who l = Inr (ok, l') \<and> P l'"
proof (cases "transferFrom E l (plan_token plan) who (plan_merchant plan) (plan_amount plan)")
  case (Returned p)
  obtain ok l' where p: "p = (ok, l')" by (cases p)
  from assms Returned p have "P l'" by (auto simp: answers_def)
  with Returned p assms(2) show ?thesis by (auto simp: internal_executePaymentFrom_def)
next
  case Reverted
  with assms(2) show ?thesis by (auto simp: internal_executePaymentFrom_def)
next
  case Malformed
  with assms have False by (auto simp: answers_def)
  then show ?thesis ..
qed

lemma chargeSubscription_returns:
  assumes "internal_canCharge E c sid s l = Inr (True, fr)"
    and "block_timestamp c + 2 ^ 32 \<le> UINT256_LIMIT"
    and "paymentCount (subscriptions s sid) + 1 < UINT256_LIMIT"
    and "answers E P" and "P l"
  shows "\<exists>r s' l'. internal_chargeSubscription E c sid s l = Inr (r, s', l') \<and> P l'"
proof -
  let ?sub = "subscriptions s sid"
  let ?plan = "plans s (sub_planId ?sub)"
  have due: "currentPeriodEnd ?sub \<le> block_timestamp c"
    by (rule canCharge_True(3) [OF assms(1)])
  have "unat (plan_interval ?plan) < 2 ^ 32"
    using unsigned_less [of "plan_interval ?plan"] by simp
  with due assms(2) have fit: "currentPeriodEnd ?sub + unat (plan_interval ?plan) < UINT256_LIMIT"
    by linarith
  from executePaymentFrom_returns [OF assms(4,5), of ?plan "subscriber ?sub"] obtain ok l' where
    "internal_executePaymentFrom E ?plan (subscriber ?sub) l = Inr (ok, l')" and "P l'"
    by blast
  then show ?thesis
    using fit assms(3,5) by (auto simp: internal_chargeSubscription_def Let_def)
qed

lemma batchCharge_item_returns:
  assumes "block_timestamp c + 2 ^ 32 \<le> UINT256_LIMIT"
    and "paymentCount (subscriptions s sid) + 1 < UINT256_LIMIT"
    and "answers E P" and "P l"
  shows "\<exists>r s' l'. batchCharge_item E c sid s l = Inr (r, s', l') \<and> P l'"
proof -
  from canCharge_returns [OF assms(3,4), of c sid s] obtain ok fr where
    cc: "internal_canCharge E c sid s l = Inr (ok, fr)"
    by blast
  show ?thesis
  proof (cases "subscriber (subscriptions s sid) \<noteq> 0 \<and> ok")
    case True
    with cc have t: "internal_canCharge E c sid s l = Inr (True, fr)" by simp
    with True have "batchCharge_item E c sid s l = internal_chargeSubscription E c sid s l"
      by (simp add: batchCharge_item_def)
    with chargeSubscription_returns [OF t assms] show ?thesis by simp
  next
    case False
    with cc have "batchCharge_item E c sid s l = Inr (False, s, l)"
      by (auto simp: batchCharge_item_def)
    with assms(4) show ?thesis by auto
  qed
qed

lemma batchCharge_loop_returns:
  assumes "block_timestamp c + 2 ^ 32 \<le> UINT256_LIMIT"
    and "\<forall>x. paymentCount (subscriptions s x) + length ids < UINT256_LIMIT"
    and "answers E P" and "P l"
  shows "\<exists>rs s' l'. batchCharge_loop E c ids acc s l = Inr (rs, s', l')"
  using assms(2,4)
proof (induction ids arbitrary: acc s l)
  case Nil
  then show ?case by simp
next
  case (Cons a ids)
  from Cons.prems(1) have "paymentCount (subscriptions s a) + length (a # ids) < UINT256_LIMIT"
    by blast
  then have "paymentCount (subscriptions s a) + 1 < UINT256_LIMIT" by simp
  from batchCharge_item_returns [OF assms(1) this assms(3) Cons.prems(2)] obtain r s1 l1 where
    it: "batchCharge_item E c a s l = Inr (r, s1, l1)" and p1: "P l1"
    by blast
  have "\<forall>x. paymentCount (subscriptions s1 x) + length ids < UINT256_LIMIT"
  proof
    fix x
    from batchCharge_item_effect(1) [OF it, of x] Cons.prems(1) [rule_format, of x]
    show "paymentCount (subscriptions s1 x) + length ids < UINT256_LIMIT"
      by (simp split: if_splits)
  qed
  from Cons.IH [OF this p1, of "acc @ [r]"] show ?case using it by simp
qed

lemma batchCharge_returns:
  assumes "guard_status s = NOT_ENTERED" and "length ids \<le> MAX_BATCH_SIZE"
    and "block_timestamp c + 2 ^ 32 \<le> UINT256_LIMIT"
    and "\<forall>x. paymentCount (subscriptions s x) + length ids < UINT256_LIMIT"
    and "answers E P" and "P l"
  shows "succeeds (batchCharge E c ids s l)"
proof -
  from batchCharge_loop_returns [OF assms(3,4,5,6), of "[]"] obtain rs s1 l1 where
    "batchCharge_loop E c ids [] s l = Inr (rs, s1, l1)"
    by blast
  then show ?thesis
    by (simp add: batchCharge_plain [OF assms(1,2)] succeeds_def)
qed

lemma batchCharge_effect:
  assumes "batchCharge E c ids s l = Inr (rs, s', l')"
  shows "length rs = length ids \<and>
         (\<forall>k<length ids. \<not> subscriptionExists s (ids ! k) \<longrightarrow> \<not> rs ! k) \<and>
         (\<forall>y. paymentCount (subscriptions s' y) = paymentCount (subscriptions s y) + charged ids rs y \<and>
              length (subscriptionPayments s' y) = length (subscriptionPayments s y) + charged ids rs y \<and>
              subscriptionExists s' y = subscriptionExists s y) \<and>
         (\<forall>y. y \<notin> set ids \<longrightarrow> subscriptions s' y = subscriptions s y) \<and>
         plans s' = plans s \<and> payments s' = payments s"
proof -
  from batchCharge_cases [OF assms] obtain s1 where
    lp: "batchCharge_loop E c ids [] (s\<lparr>guard_status := ENTERED\<rparr>) l = Inr (rs, s1, l')"
    and s': "s' = s1\<lparr>guard_status := NOT_ENTERED\<rparr>"
    by blast
  from batchCharge_loop_effect [OF lp] plans_batchCharge_loop [OF lp] payments_batchCharge_loop [OF lp]
  show ?thesis by (simp add: s' subscriptionExists_def)
qed

text \<open>
  An item that yields false changes only the status of its own subscription, and the
  results of a batch depend only on the plans and on the subscriptions it names.
\<close>

lemma results_prepend:
  "results (prepend r rest) = (case results rest of Inl e \<Rightarrow> Inl e | Inr rs \<Rightarrow> Inr (r # rs))"
  by (simp add: results_def prepend_def split: sum.splits prod.splits)

lemma results_batchCharge:
  assumes "guard_status s \<noteq> ENTERED"
  shows "results (batchCharge E c ids s l) =
           (if \<not> length ids \<le> MAX_BATCH_SIZE then Inl (Revert ''Batch too large'')
            else results (batchCharge_loop E c ids [] s l))"
  using assms
  by (simp add: batchCharge_def nonReentrant_def batchCharge_loop_guard results_def
      split: sum.splits prod.splits)

lemma canCharge_cong:
  assumes "plans s1 = plans s0" and "subscriptions s1 x = subscriptions s0 x"
  shows "internal_canCharge E c x s1 l = internal_canCharge E c x s0 l"
  using assms by (simp add: internal_canCharge_def)

lemma chargeSubscription_cong:
  assumes "plans s1 = plans s0" and "subscriptions s1 x = subscriptions s0 x"
  shows "case internal_chargeSubscription E c x s0 l of
           Inl e \<Rightarrow> internal_chargeSubscription E c x s1 l = Inl e
         | Inr (r, s0', l') \<Rightarrow>
             (\<exists>s1'. internal_chargeSubscription E c x s1 l = Inr (r, s1', l') \<and>
                    plans s1' = plans s0' \<and> subscriptions s1' x = subscriptions s0' x)"
  using assms
  by (cases "internal_executePaymentFrom E (plans s0 (sub_planId (subscriptions s0 x)))
        (subscriber (subscriptions s0 x)) l")
     (auto simp: internal_chargeSubscription_def Let_def)

lemma batchCharge_item_cong:
  assumes "plans s1 = plans s0" and "subscriptions s1 x = subscriptions s0 x"
  shows "case batchCharge_item E c x s0 l of
           Inl e \<Rightarrow> batchCharge_item E c x s1 l = Inl e
         | Inr (r, s0', l') \<Rightarrow>
             (\<exists>s1'. batchCharge_item E c x s1 l = Inr (r, s1', l') \<and>
                    plans s1' = plans s0' \<and> subscriptions s1' x = subscriptions s0' x)"
proof -
  note cc = canCharge_cong [OF assms, of E c l]
  note cs = chargeSubscription_cong [OF assms, of E c l]
  show ?thesis
  proof (cases "subscriber (subscriptions s0 x) = 0")
    case True
    with assms show ?thesis by (simp add: batchCharge_item_def)
  next
    case False
    show ?thesis
    proof (cases "internal_canCharge E c x s0 l")
      case (Inl e)
      with False assms cc show ?thesis by (simp add: batchCharge_item_def)
    next
      case (Inr p)
      obtain ok fr where p: "p = (ok, fr)" by (cases p)
      show ?thesis
      proof (cases ok)
        case True
        with False Inr p have e0: "batchCharge_item E c x s0 l = internal_chargeSubscription E c x s0 l"
          by (simp add: batchCharge_item_def)
        from True False Inr p cc assms(2)
        have e1: "batchCharge_item E c x s1 l = internal_chargeSubscription E c x s1 l"
          by (simp add: batchCharge_item_def)
        from cs show ?thesis by (simp only: e0 e1)
      next
        case ok: False
        with False assms cc Inr p show ?thesis by (simp add: batchCharge_item_def)
      qed
    qed
  qed
qed

lemma batchCharge_loop_cong:
  assumes "plans s1 = plans s0" and "\<forall>y\<in>set ids. subscriptions s1 y = subscriptions s0 y"
  shows "results (batchCharge_loop E c ids [] s1 l) = results (batchCharge_loop E c ids [] s0 l)"
  using assms
proof (induction ids arbitrary: s1 s0 l)
  case Nil
  show ?case by (simp add: results_def)
next
  case (Cons x ids)
  from Cons.prems have q: "subscriptions s1 x = subscriptions s0 x" by simp
  note ic = batchCharge_item_cong [OF Cons.prems(1) q, of E c l]
  show ?case
  proof (cases "batchCharge_item E c x s0 l")
    case (Inl e)
    with ic have "batchCharge_item E c x s1 l = Inl e" by simp
    with Inl show ?thesis by (simp only: batchCharge_loop_Cons)
  next
    case (Inr t)
    obtain r s0' l' where t: "t = (r, s0', l')" by (cases t)
    from Inr t have i0: "batchCharge_item E c x s0 l = Inr (r, s0', l')" by simp
    with ic obtain s1' where
      i1: "batchCharge_item E c x s1 l = Inr (r, s1', l')"
      and p': "plans s1' = plans s0'" and q': "subscriptions s1' x = subscriptions s0' x"
      by auto
    have "\<forall>y\<in>set ids. subscriptions s1' y = subscriptions s0' y"
    proof
      fix y assume y: "y \<in> set ids"
      show "subscriptions s1' y = subscriptions s0' y"
      proof (cases "y = x")
        case True
        with q' show ?thesis by simp
      next
        case False
        from batchCharge_item_frame(5) [OF i1 False] batchCharge_item_frame(5) [OF i0 False]
          Cons.prems(2) y
        show ?thesis by simp
      qed
    qed
    from Cons.IH [OF p' this, of l']
    have "results (batchCharge_loop E c ids [] s1' l') = results (batchCharge_loop E c ids [] s0' l')" .
    then show ?thesis
      by (simp only: batchCharge_loop_Cons i0 i1) (simp add: results_prepend)
  qed
qed

lemma chargeSubscription_false:
  assumes "internal_chargeSubscription E c sid s l = Inr (False, s', l')"
  shows "(subscriptions s' = (subscriptions s)(sid := (subscriptions s sid)\<lparr>status := Canceled\<rparr>) \<or>
          subscriptions s' = (subscriptions s)(sid := (subscriptions s sid)\<lparr>status := Expired\<rparr>)) \<and>
         subscriptionPayments s' = subscriptionPayments s \<and>
         (l' = l \<or>
          transferFrom E l (plan_token (plans s (sub_planId (subscriptions s sid))))
             (subscriber (subscriptions s sid))
             (plan_merchant (plans s (sub_planId (subscriptions s sid))))
             (plan_amount (plans s (sub_planId (subscriptions s sid)))) = Returned (False, l'))"
  using assms
  by (auto simp: internal_chargeSubscription_def internal_executePaymentFrom_def Let_def
      split: if_splits prod.splits reply.splits)

lemma batchCharge_item_false:
  assumes "batchCharge_item E c sid s l = Inr (False, s', l')"
  shows "plans s' = plans s \<and> payments s' = payments s \<and>
         subscriptionPayments s' = subscriptionPayments s \<and>
         (\<forall>x. x \<noteq> sid \<longrightarrow> subscriptions s' x = subscriptions s x) \<and>
         currentPeriodStart (subscriptions s' sid) = currentPeriodStart (subscriptions s sid) \<and>
         currentPeriodEnd (subscriptions s' sid) = currentPeriodEnd (subscriptions s sid) \<and>
         paymentCount (subscriptions s' sid) = paymentCount (subscriptions s sid) \<and>
         (l' = l \<or>
          transferFrom E l (plan_token (plans s (sub_planId (subscriptions s sid))))
             (subscriber (subscriptions s sid))
             (plan_merchant (plans s (sub_planId (subscriptions s sid))))
             (plan_amount (plans s (sub_planId (subscriptions s sid)))) = Returned (False, l'))"
  using batchCharge_item_cases [OF assms]
proof (elim disjE conjE)
  assume "s' = s" and "l' = l"
  then show ?thesis by simp
next
  assume cs: "internal_chargeSubscription E c sid s l = Inr (False, s', l')"
  from chargeSubscription_false [OF cs] chargeSubscription_frame(1,2) [OF cs]
  show ?thesis by auto
qed

lemma batchCharge_independent:
  assumes "batchCharge E c [x] s l = Inr ([False], s1, l1)" and "x \<notin> set ids"
  shows "results (batchCharge E c ids s1 l2) = results (batchCharge E c ids s l2) \<and>
         plans s1 = plans s \<and> payments s1 = payments s \<and>
         subscriptionPayments s1 = subscriptionPayments s \<and>
         (\<forall>y. y \<noteq> x \<longrightarrow> subscriptions s1 y = subscriptions s y) \<and>
         currentPeriodStart (subscriptions s1 x) = currentPeriodStart (subscriptions s x) \<and>
         currentPeriodEnd (subscriptions s1 x) = currentPeriodEnd (subscriptions s x) \<and>
         paymentCount (subscriptions s1 x) = paymentCount (subscriptions s x) \<and>
         (l1 = l \<or>
          transferFrom E l (plan_token (plans s (sub_planId (subscriptions s x))))
             (subscriber (subscriptions s x))
             (plan_merchant (plans s (sub_planId (subscriptions s x))))
             (plan_amount (plans s (sub_planId (subscriptions s x)))) = Returned (False, l1))"
proof -
  let ?sE = "s\<lparr>guard_status := ENTERED\<rparr>"
  from batchCharge_cases [OF assms(1)] obtain sE where
    lp: "batchCharge_loop E c [x] [] ?sE l = Inr ([False], sE, l1)"
    and s1: "s1 = sE\<lparr>guard_status := NOT_ENTERED\<rparr>"
    by blast
  from nonReentrant_result [OF assms(1) [unfolded batchCharge_def]]
  have g: "guard_status s \<noteq> ENTERED" by blast
  have g1: "guard_status s1 \<noteq> ENTERED" by (simp add: s1 NOT_ENTERED_def ENTERED_def)
  from batchCharge_loop_split [OF lp] have it: "batchCharge_item E c x ?sE l = Inr (False, sE, l1)"
    by auto
  note f = batchCharge_item_false [OF it]
  from f have p: "plans s1 = plans s" by (simp add: s1)
  from f assms(2) have q: "\<forall>y\<in>set ids. subscriptions s1 y = subscriptions s y"
    by (auto simp: s1)
  have "results (batchCharge E c ids s1 l2) = results (batchCharge E c ids s l2)"
    using batchCharge_loop_cong [OF p q, of E c l2]
    by (simp add: results_batchCharge [OF g] results_batchCharge [OF g1])
  with f show ?thesis by (simp add: s1)
qed

text \<open>
  The batch as a whole. (1) A list longer than the maximum batch size is rejected.
  (2) For a list of at most that size, called outside a reentrant call, \<open>batchCharge\<close>
  takes the identifiers in order, each on the storage and the ledger left by the ones
  before it: the empty list returns no results and changes nothing; an unknown
  identifier, and an existing one that \<open>canCharge\<close> reports as not chargeable, put
  false in front of the results of the rest and change nothing; a chargeable one is
  charged as \<open>charge\<close> charges it, its result put in front of the results of the rest,
  which runs on the storage and ledger the charge left; and when \<open>canCharge\<close> or
  \<open>charge\<close> fails for one identifier, the whole batch fails. (3) The batch returns
  when the ledger answers every balance and allowance query and no \<open>transferFrom\<close>
  undecodably (the time stamp and the payment counts being far enough from the end of
  the \<^verbatim>\<open>uint256\<close> range for the additions not to overflow). (4) When it returns, there
  are as many results as identifiers; an identifier unknown at the call has false at
  each of its positions; the payment count and the payment history of every
  subscription have grown by the number of positions that hold its identifier and
  true; subscriptions not named, plans and one-time payments are as before. (5) An
  identifier that yields false leaves the results of every batch of other identifiers
  (on a given ledger) as they were, changes neither plans nor payment histories nor
  any other subscription nor its own period and payment count, and leaves the ledger
  as it is unless the token returned false from \<open>transferFrom\<close> and changed it.
\<close>

lemma batchCharge_sequence:
  "(guard_status s \<noteq> ENTERED \<and> MAX_BATCH_SIZE < length too_many \<longrightarrow>
      batchCharge E c too_many s l = Inl (Revert ''Batch too large'')) \<and>
   (guard_status s = NOT_ENTERED \<longrightarrow> batchCharge E c [] s l = Inr ([], s, l)) \<and>
   (guard_status s = NOT_ENTERED \<and> length (x # rest) \<le> MAX_BATCH_SIZE \<longrightarrow>
      batchCharge E c (x # rest) s l =
        (if \<not> subscriptionExists s x then prepend False (batchCharge E c rest s l)
         else
           case canCharge E c x s l of
             Inl e \<Rightarrow> Inl e
           | Inr (ok, reason) \<Rightarrow>
               if \<not> ok then prepend False (batchCharge E c rest s l)
               else
                 (case charge E c x s l of
                    Inl e \<Rightarrow> Inl e
                  | Inr (r, s1, l1) \<Rightarrow> prepend r (batchCharge E c rest s1 l1)))) \<and>
   (guard_status s = NOT_ENTERED \<and> length ids \<le> MAX_BATCH_SIZE \<and>
    answers E P \<and> P l \<and>
    block_timestamp c + 2 ^ 32 \<le> UINT256_LIMIT \<and>
    (\<forall>y. paymentCount (subscriptions s y) + length ids < UINT256_LIMIT) \<longrightarrow>
      succeeds (batchCharge E c ids s l)) \<and>
   (batchCharge E c ids s l = Inr (rs, s', l') \<longrightarrow>
      length rs = length ids \<and>
      (\<forall>k<length ids. \<not> subscriptionExists s (ids ! k) \<longrightarrow> \<not> rs ! k) \<and>
      (\<forall>y. paymentCount (subscriptions s' y) = paymentCount (subscriptions s y) + charged ids rs y \<and>
           length (subscriptionPayments s' y) = length (subscriptionPayments s y) + charged ids rs y \<and>
           subscriptionExists s' y = subscriptionExists s y) \<and>
      (\<forall>y. y \<notin> set ids \<longrightarrow> subscriptions s' y = subscriptions s y) \<and>
      plans s' = plans s \<and> payments s' = payments s) \<and>
   (batchCharge E c [failing] s0 l0 = Inr ([False], s1, l1) \<and> failing \<notin> set others \<longrightarrow>
      results (batchCharge E c others s1 l2) = results (batchCharge E c others s0 l2) \<and>
      plans s1 = plans s0 \<and> payments s1 = payments s0 \<and>
      subscriptionPayments s1 = subscriptionPayments s0 \<and>
      (\<forall>y. y \<noteq> failing \<longrightarrow> subscriptions s1 y = subscriptions s0 y) \<and>
      currentPeriodStart (subscriptions s1 failing) = currentPeriodStart (subscriptions s0 failing) \<and>
      currentPeriodEnd (subscriptions s1 failing) = currentPeriodEnd (subscriptions s0 failing) \<and>
      paymentCount (subscriptions s1 failing) = paymentCount (subscriptions s0 failing) \<and>
      (l1 = l0 \<or>
       transferFrom E l0 (plan_token (plans s0 (sub_planId (subscriptions s0 failing))))
          (subscriber (subscriptions s0 failing))
          (plan_merchant (plans s0 (sub_planId (subscriptions s0 failing))))
          (plan_amount (plans s0 (sub_planId (subscriptions s0 failing)))) = Returned (False, l1)))"
proof (intro conjI)
  show "guard_status s \<noteq> ENTERED \<and> MAX_BATCH_SIZE < length too_many \<longrightarrow>
      batchCharge E c too_many s l = Inl (Revert ''Batch too large'')"
    by (simp add: batchCharge_too_large)
  show "guard_status s = NOT_ENTERED \<longrightarrow> batchCharge E c [] s l = Inr ([], s, l)"
    by (simp add: batchCharge_Nil)
  show "guard_status s = NOT_ENTERED \<and> length (x # rest) \<le> MAX_BATCH_SIZE \<longrightarrow>
      batchCharge E c (x # rest) s l =
        (if \<not> subscriptionExists s x then prepend False (batchCharge E c rest s l)
         else
           case canCharge E c x s l of
             Inl e \<Rightarrow> Inl e
           | Inr (ok, reason) \<Rightarrow>
               if \<not> ok then prepend False (batchCharge E c rest s l)
               else
                 (case charge E c x s l of
                    Inl e \<Rightarrow> Inl e
                  | Inr (r, s1, l1) \<Rightarrow> prepend r (batchCharge E c rest s1 l1)))"
    using batchCharge_Cons [of s x rest E c l] by blast
  show "guard_status s = NOT_ENTERED \<and> length ids \<le> MAX_BATCH_SIZE \<and>
    answers E P \<and> P l \<and>
    block_timestamp c + 2 ^ 32 \<le> UINT256_LIMIT \<and>
    (\<forall>y. paymentCount (subscriptions s y) + length ids < UINT256_LIMIT) \<longrightarrow>
      succeeds (batchCharge E c ids s l)"
    using batchCharge_returns [of s ids c E P l] by blast
  show "batchCharge E c ids s l = Inr (rs, s', l') \<longrightarrow>
      length rs = length ids \<and>
      (\<forall>k<length ids. \<not> subscriptionExists s (ids ! k) \<longrightarrow> \<not> rs ! k) \<and>
      (\<forall>y. paymentCount (subscriptions s' y) = paymentCount (subscriptions s y) + charged ids rs y \<and>
           length (subscriptionPayments s' y) = length (subscriptionPayments s y) + charged ids rs y \<and>
           subscriptionExists s' y = subscriptionExists s y) \<and>
      (\<forall>y. y \<notin> set ids \<longrightarrow> subscriptions s' y = subscriptions s y) \<and>
      plans s' = plans s \<and> payments s' = payments s"
    using batchCharge_effect [of E c ids s l rs s' l'] by blast
  show "batchCharge E c [failing] s0 l0 = Inr ([False], s1, l1) \<and> failing \<notin> set others \<longrightarrow>
      results (batchCharge E c others s1 l2) = results (batchCharge E c others s0 l2) \<and>
      plans s1 = plans s0 \<and> payments s1 = payments s0 \<and>
      subscriptionPayments s1 = subscriptionPayments s0 \<and>
      (\<forall>y. y \<noteq> failing \<longrightarrow> subscriptions s1 y = subscriptions s0 y) \<and>
      currentPeriodStart (subscriptions s1 failing) = currentPeriodStart (subscriptions s0 failing) \<and>
      currentPeriodEnd (subscriptions s1 failing) = currentPeriodEnd (subscriptions s0 failing) \<and>
      paymentCount (subscriptions s1 failing) = paymentCount (subscriptions s0 failing) \<and>
      (l1 = l0 \<or>
       transferFrom E l0 (plan_token (plans s0 (sub_planId (subscriptions s0 failing))))
          (subscriber (subscriptions s0 failing))
          (plan_merchant (plans s0 (sub_planId (subscriptions s0 failing))))
          (plan_amount (plans s0 (sub_planId (subscriptions s0 failing)))) = Returned (False, l1))"
    using batchCharge_independent [of E c failing s0 l0 s1 l1 others l2] by blast
qed

lemmas two_defs = st_two_def st_plan13_def st_token6_def st_sub11_def ledger_frozen_def
  ledger_gone_def ledger_mute_def

lemma answers_demo: "answers demo_env sound"
  by (simp add: answers_def sound_def has_value_def demo_env_def demo_balanceOf_def
      demo_allowance_def demo_transferFrom_def)

text \<open>
  At time 90000 both subscriptions are due. On the funded ledger the batch 1001, 77,
  1002, 1001 yields true, false, true, false (77 is unknown, the second charge of
  1001 is not due any more) and both payment counts go from 1 to 2; a batch of 101
  identifiers is rejected; with token 5 frozen the item 1001 yields false, and the
  batch 77, 1002 has the same results after it as before it.
\<close>

lemma batchCharge_sequence_example:
  "guard_status st_two \<noteq> ENTERED \<and> MAX_BATCH_SIZE < length (replicate 101 (77::nat)) \<and>
   batchCharge demo_env (at 60 90000) (replicate 101 77) st_two ledger_funded
     = Inl (Revert ''Batch too large'') \<and>
   guard_status st_two = NOT_ENTERED \<and>
   length (1001 # [77, 1002, 1001 :: nat]) \<le> MAX_BATCH_SIZE \<and>
   length [1001, 77, 1002, 1001 :: nat] \<le> MAX_BATCH_SIZE \<and>
   answers demo_env sound \<and> sound ledger_funded \<and>
   block_timestamp (at 60 90000) + 2 ^ 32 \<le> UINT256_LIMIT \<and>
   (\<forall>y. paymentCount (subscriptions st_two y) + length [1001, 77, 1002, 1001 :: nat] < UINT256_LIMIT) \<and>
   succeeds (batchCharge demo_env (at 60 90000) [1001, 77, 1002, 1001] st_two ledger_funded) \<and>
   returned (batchCharge demo_env (at 60 90000) [1001, 77, 1002, 1001] st_two ledger_funded)
     = [True, False, True, False] \<and>
   \<not> subscriptionExists st_two 77 \<and>
   paymentCount (subscriptions st_two 1001) = 1 \<and>
   paymentCount (subscriptions st_two 1002) = 1 \<and>
   paymentCount (subscriptions
     (storage_after (batchCharge demo_env (at 60 90000) [1001, 77, 1002, 1001] st_two ledger_funded))
     1001) = 2 \<and>
   paymentCount (subscriptions
     (storage_after (batchCharge demo_env (at 60 90000) [1001, 77, 1002, 1001] st_two ledger_funded))
     1002) = 2 \<and>
   returned (batchCharge demo_env (at 60 90000) [1001] st_two ledger_frozen) = [False] \<and>
   (1001::nat) \<notin> set [77, 1002] \<and>
   results (batchCharge demo_env (at 60 90000) [77, 1002]
              (storage_after (batchCharge demo_env (at 60 90000) [1001] st_two ledger_frozen))
              ledger_funded)
     = results (batchCharge demo_env (at 60 90000) [77, 1002] st_two ledger_funded)"
proof -
  let ?c = "at 60 90000"
  let ?b = "batchCharge demo_env ?c [1001, 77, 1002, 1001] st_two ledger_funded"
  let ?f = "batchCharge demo_env ?c [1001] st_two ledger_frozen"
  have g: "guard_status st_two \<noteq> ENTERED" "guard_status st_two = NOT_ENTERED"
    by (simp_all add: scenario_defs two_defs)
  have big: "MAX_BATCH_SIZE < length (replicate 101 (77::nat))"
    by (simp add: MAX_BATCH_SIZE_def)
  have small: "length (1001 # [77, 1002, 1001 :: nat]) \<le> MAX_BATCH_SIZE"
    "length [1001, 77, 1002, 1001 :: nat] \<le> MAX_BATCH_SIZE"
    by (simp_all add: MAX_BATCH_SIZE_def)
  have snd: "sound ledger_funded" by (simp add: sound_def ledger_funded_def)
  have tm: "block_timestamp ?c + 2 ^ 32 \<le> UINT256_LIMIT"
    by (simp add: at_def UINT256_LIMIT_def)
  have cnt: "\<forall>y. paymentCount (subscriptions st_two y) + length [1001, 77, 1002, 1001 :: nat] < UINT256_LIMIT"
    by (simp add: scenario_defs two_defs)
  have unk: "\<not> subscriptionExists st_two 77"
    by (simp add: scenario_defs two_defs)
  have before: "paymentCount (subscriptions st_two 1001) = 1"
    "paymentCount (subscriptions st_two 1002) = 1"
    by (simp_all add: scenario_defs two_defs)
  have sb: "succeeds ?b" and res: "returned ?b = [True, False, True, False]"
    by (simp_all add: scenario_defs two_defs)
  have eb: "?b = Inr ([True, False, True, False], storage_after ?b, ledger_after ?b)"
    using succeeds_result [OF sb] res by simp
  have sf: "succeeds ?f" and rf: "returned ?f = [False]"
    by (simp_all add: scenario_defs two_defs)
  have ef: "?f = Inr ([False], storage_after ?f, ledger_after ?f)"
    using succeeds_result [OF sf] rf by simp
  have ne: "(1001::nat) \<notin> set [77, 1002]" by simp
  have ch: "charged [1001, 77, 1002, 1001 :: nat] [True, False, True, False] 1001 = 1"
    "charged [1001, 77, 1002, 1001 :: nat] [True, False, True, False] 1002 = 1"
    by simp_all
  note T = batchCharge_sequence [of st_two "replicate 101 77" demo_env ?c ledger_funded
        1001 "[77, 1002, 1001]" "[1001, 77, 1002, 1001]" sound
        "[True, False, True, False]" "storage_after ?b" "ledger_after ?b"
        1001 st_two ledger_frozen "storage_after ?f" "ledger_after ?f" "[77, 1002]" ledger_funded]
  from T g(1) big have t1: "batchCharge demo_env ?c (replicate 101 77) st_two ledger_funded
      = Inl (Revert ''Batch too large'')"
    by blast
  from T eb have t5: "\<forall>y. paymentCount (subscriptions (storage_after ?b) y) =
      paymentCount (subscriptions st_two y) + charged [1001, 77, 1002, 1001] [True, False, True, False] y"
    by blast
  from t5 have a1: "paymentCount (subscriptions (storage_after ?b) 1001) =
      paymentCount (subscriptions st_two 1001) + charged [1001, 77, 1002, 1001] [True, False, True, False] 1001"
    by (rule spec)
  from t5 have a2: "paymentCount (subscriptions (storage_after ?b) 1002) =
      paymentCount (subscriptions st_two 1002) + charged [1001, 77, 1002, 1001] [True, False, True, False] 1002"
    by (rule spec)
  from T ef ne have t6: "results (batchCharge demo_env ?c [77, 1002] (storage_after ?f) ledger_funded)
      = results (batchCharge demo_env ?c [77, 1002] st_two ledger_funded)"
    by blast
  have c1: "paymentCount (subscriptions (storage_after ?b) 1001) = 2"
    by (simp only: a1 before ch)
  have c2: "paymentCount (subscriptions (storage_after ?b) 1002) = 2"
    by (simp only: a2 before ch)
  from g big t1 small answers_demo snd tm cnt sb res unk before c1 c2 rf ne t6
  show ?thesis by blast
qed

text \<open>
  C9. The code at a batch with one pull whose reply cannot be decoded. At time 90000
  the subscriptions 1001 (token 5) and 1002 (token 6) are both due and funded. When
  token 5 reverts the pull, the batch 1002, 1001 returns true, false: the failure of
  1001 stays with 1001. When token 5 answers \<open>transferFrom\<close> with data that are not a
  boolean, the batch of 1002 alone still returns true, but the batch 1002, 1001
  reverts as a whole: no results are returned and the charge of 1002 is undone. A
  token without code does the same through the balance query of the eligibility
  check: with token 6 gone, the batch 1001, 1002 reverts.
\<close>

theorem C9_undecodable_pull_aborts_batch:
  "guard_status st_two = NOT_ENTERED \<and> length [1002, 1001 :: nat] \<le> MAX_BATCH_SIZE \<and>
   subscriptionExists st_two 1001 \<and> subscriptionExists st_two 1002 \<and>
   transferFrom demo_env ledger_frozen 5 7 50 1000 = Reverted \<and>
   returned (batchCharge demo_env (at 60 90000) [1002, 1001] st_two ledger_frozen) = [True, False] \<and>
   transferFrom demo_env ledger_mute 5 7 50 1000 = Malformed \<and>
   returned (batchCharge demo_env (at 60 90000) [1002] st_two ledger_mute) = [True] \<and>
   \<not> succeeds (batchCharge demo_env (at 60 90000) [1002, 1001] st_two ledger_mute) \<and>
   batchCharge demo_env (at 60 90000) [1002, 1001] st_two ledger_mute
     = Inl (ExternalCallFailed ''transferFrom'') \<and>
   balanceOf demo_env ledger_gone 6 8 = Malformed \<and>
   returned (batchCharge demo_env (at 60 90000) [1001] st_two ledger_gone) = [True] \<and>
   batchCharge demo_env (at 60 90000) [1001, 1002] st_two ledger_gone
     = Inl (ExternalCallFailed ''balanceOf'')"
  by (simp add: scenario_defs two_defs)

end
